theory Spec2Isabelle
  imports Main "HOL-Library.AList"
begin

section \<open>tug/main.py: the command-line front end of tugboat\<close>

text \<open>
  The module is glue between docopt, the compose library and the docker client. The
  embedding keeps the control flow, the dictionaries, the exception handling and the
  string formatting of \<^verbatim>\<open>main.py\<close> as they are written, and takes everything the module
  imports (compose's \<^verbatim>\<open>Project\<close>, the docker client, \<^verbatim>\<open>config.load\<close>, \<^verbatim>\<open>os\<close>,
  \<^verbatim>\<open>subprocess\<close>) as an environment of functions over an abstract world \<open>'w\<close>.
\<close>

subsection \<open>Exceptions\<close>

text \<open>
  One constructor per exception class the module names, raises or lets through. A
  constructor stands for its class and the subclasses an \<^verbatim>\<open>except\<close> clause of that class
  would match. \<open>SystemExit\<close> carries the argument of \<^verbatim>\<open>sys.exit\<close> / \<^verbatim>\<open>SystemExit(...)\<close>;
  \<open>OtherError\<close> is any exception class the module does not mention.
\<close>

datatype exit_arg = Code int | Message string

datatype exn =
    KeyboardInterrupt
  | NoSuchService string
  | ConfigurationError string
  | LegacyContainersError string
  | APIError string
  | BuildError string string
  | ReadTimeout
  | KeyError string
  | DocoptExit
  | SystemExit exit_arg
  | OtherError string

subsection \<open>Containers, plans and engine calls\<close>

text \<open>
  The attributes of compose's \<^verbatim>\<open>Container\<close> that the module reads. They are a snapshot
  taken when the container was listed: \<^verbatim>\<open>is_running\<close> is read from the inspected
  dictionary the object was built with.
\<close>

record container =
  cid :: string
  cname :: string
  name_without_project :: string
  is_running :: bool
  human_readable_state :: string
  ip_address :: string

text \<open>A convergence plan: \<^verbatim>\<open>plan.action\<close> and \<^verbatim>\<open>plan.containers\<close>.\<close>

record plan =
  plan_action :: string
  plan_containers :: "container list"

text \<open>What \<^verbatim>\<open>client.inspect_container\<close> returns, as far as \<^verbatim>\<open>_ps\<close> reads it.\<close>

record detail =
  detail_name :: string
  detail_ip :: string

text \<open>
  Every call that leaves the module and may change the world or block. The arguments are
  the ones the source passes.
\<close>

datatype call =
    Kill string string
  | Wait string nat
  | Stop string
  | Remove string
  | ProjectUp "string list" bool
  | ProjectKill "string list" string
  | ProjectStop "string list"
  | ProjectRemoveStopped "string list"
  | ProjectRestart "string list"
  | ProjectBuild "string list" bool
  | ProjectPull "string list"
  | LogPrinterRun "string list"
  | SubprocessCall "string list"
  | ConfigLoad string

fun call_target :: "call \<Rightarrow> string option" where
  "call_target (Kill i sg) = Some i"
| "call_target (Wait i t) = Some i"
| "call_target (Stop i) = Some i"
| "call_target (Remove i) = Some i"
| "call_target c = None"

fun is_container_call :: "call \<Rightarrow> bool" where
  "is_container_call (Kill i sg) = True"
| "is_container_call (Wait i t) = True"
| "is_container_call (Stop i) = True"
| "is_container_call (Remove i) = True"
| "is_container_call c = False"

subsection \<open>The environment\<close>

text \<open>
  The imported libraries, as functions of the world. Queries return a value or raise;
  \<open>project_call\<close> and \<open>engine_call\<close> also return the world they leave behind. The type
  \<open>'c\<close> is a loaded configuration, \<open>'p\<close> a compose \<^verbatim>\<open>Project\<close>. The last two fields
  belong to the interpreter: \<open>project_str\<close> is what \<^verbatim>\<open>str.format\<close> makes of a \<^verbatim>\<open>Project\<close>
  object, and \<open>object_attr\<close> gives, for each attribute an instance has without the class
  defining it (\<^verbatim>\<open>__class__\<close>, \<^verbatim>\<open>__doc__\<close>, \<^verbatim>\<open>__repr__\<close> and so on; the list depends on
  the version of Python), what calling it with three arguments returns or raises, and
  \<open>None\<close> for every other name.
\<close>

record ('w, 'c, 'p) env =
  abspath :: "string \<Rightarrow> string"
  listdir :: "'w \<Rightarrow> string list"
  config_load :: "'w \<Rightarrow> string \<Rightarrow> exn + 'c"
  from_dicts :: "string \<Rightarrow> 'c \<Rightarrow> exn + 'p"
  project_containers :: "'w \<Rightarrow> 'p \<Rightarrow> string list option \<Rightarrow> bool \<Rightarrow> bool \<Rightarrow> exn + container list"
  get_services :: "'w \<Rightarrow> 'p \<Rightarrow> string list \<Rightarrow> bool \<Rightarrow> exn + string list"
  service_containers :: "'w \<Rightarrow> 'p \<Rightarrow> string \<Rightarrow> bool \<Rightarrow> bool \<Rightarrow> exn + container list"
  get_convergence_plans :: "'w \<Rightarrow> 'p \<Rightarrow> string list \<Rightarrow> exn + (string \<times> plan) list"
  client_containers :: "'w \<Rightarrow> exn + string list"
  inspect_container :: "'w \<Rightarrow> string \<Rightarrow> exn + detail"
  project_call :: "'w \<Rightarrow> 'p \<Rightarrow> call \<Rightarrow> (exn + int) \<times> 'w"
  engine_call :: "'w \<Rightarrow> call \<Rightarrow> (exn + int) \<times> 'w"
  project_str :: "'p \<Rightarrow> string"
  object_attr :: "string \<Rightarrow> ('p \<Rightarrow> string \<Rightarrow> string list \<Rightarrow> exn + unit) option"

subsection \<open>Program state and sequencing\<close>

text \<open>
  The state a command threads through: the world, the arguments of every \<^verbatim>\<open>print\<close> so
  far, and the calls made so far, both in order.
\<close>

record 'w st =
  world :: 'w
  out :: "string list"
  calls :: "call list"

type_synonym ('w, 'a) prog = "'w st \<Rightarrow> (exn + 'a) \<times> 'w st"

definition ret :: "'a \<Rightarrow> ('w, 'a) prog" where
  "ret x = (\<lambda>s. (Inr x, s))"

definition raise :: "exn \<Rightarrow> ('w, 'a) prog" where
  "raise e = (\<lambda>s. (Inl e, s))"

definition bnd :: "('w, 'a) prog \<Rightarrow> ('a \<Rightarrow> ('w, 'b) prog) \<Rightarrow> ('w, 'b) prog" where
  "bnd m f = (\<lambda>s. case m s of (Inl e, s') \<Rightarrow> (Inl e, s') | (Inr x, s') \<Rightarrow> f x s')"

definition lift :: "exn + 'a \<Rightarrow> ('w, 'a) prog" where
  "lift r = (\<lambda>s. (r, s))"

definition query :: "('w \<Rightarrow> exn + 'a) \<Rightarrow> ('w, 'a) prog" where
  "query q = (\<lambda>s. (q (world s), s))"

definition print :: "string \<Rightarrow> ('w, unit) prog" where
  "print x = (\<lambda>s. (Inr (), s\<lparr>out := out s @ [x]\<rparr>))"

definition do_call :: "('w \<Rightarrow> call \<Rightarrow> (exn + int) \<times> 'w) \<Rightarrow> call \<Rightarrow> ('w, int) prog" where
  "do_call f c = (\<lambda>s. case f (world s) c of
     (r, w') \<Rightarrow> (r, s\<lparr>world := w', calls := calls s @ [c]\<rparr>))"

text \<open>\<^verbatim>\<open>try: m  except ReadTimeout: pass\<close>\<close>

definition except_ReadTimeout :: "('w, int) prog \<Rightarrow> ('w, unit) prog" where
  "except_ReadTimeout m = (\<lambda>s. case m s of
     (Inl ReadTimeout, s') \<Rightarrow> (Inr (), s')
   | (Inl e, s') \<Rightarrow> (Inl e, s')
   | (Inr x, s') \<Rightarrow> (Inr (), s'))"

text \<open>A \<^verbatim>\<open>for\<close> loop over a list: the body runs on each element in order, an exception ends it.\<close>

fun for_each :: "'a list \<Rightarrow> ('a \<Rightarrow> ('w, unit) prog) \<Rightarrow> ('w, unit) prog" where
  "for_each [] body = ret ()"
| "for_each (x # xs) body = bnd (body x) (\<lambda>u. for_each xs body)"

subsection \<open>Dictionaries\<close>

text \<open>
  A Python dictionary as an association list in insertion order: assignment to a key that
  is present keeps its place, assignment to a new key appends, \<^verbatim>\<open>del\<close> of a missing key
  raises \<open>KeyError\<close>. Iteration follows the list (the order of Python 3.7 and later; the
  theorems below that speak of sets of keys do not depend on it).
\<close>

definition dict_set :: "'k \<Rightarrow> 'v \<Rightarrow> ('k \<times> 'v) list \<Rightarrow> ('k \<times> 'v) list" where
  "dict_set k v d = AList.update k v d"

definition dict_del :: "string \<Rightarrow> (string \<times> 'v) list \<Rightarrow> exn + (string \<times> 'v) list" where
  "dict_del k d = (if k \<in> fst ` set d then Inr (AList.delete k d) else Inl (KeyError k))"

definition dict_keys :: "('k \<times> 'v) list \<Rightarrow> 'k list" where
  "dict_keys d = map fst d"

subsection \<open>String formatting\<close>

text \<open>\<^verbatim>\<open>'{x: <n}'\<close>: left-aligned, padded with spaces to width \<open>n\<close>, never truncated.\<close>

definition ljust :: "nat \<Rightarrow> string \<Rightarrow> string" where
  "ljust n x = x @ replicate (n - length x) (CHR '' '')"

text \<open>\<^verbatim>\<open>sep.join(xs)\<close>\<close>

fun join :: "string \<Rightarrow> string list \<Rightarrow> string" where
  "join sep [] = []"
| "join sep [x] = x"
| "join sep (x # y # ys) = x @ sep @ join sep (y # ys)"

text \<open>\<^verbatim>\<open>x.endswith(suffix)\<close>\<close>

definition endswith :: "string \<Rightarrow> string \<Rightarrow> bool" where
  "endswith x suffix = (length suffix \<le> length x \<and> drop (length x - length suffix) x = suffix)"

text \<open>\<^verbatim>\<open>x[:-n]\<close> for a positive \<open>n\<close>\<close>

definition drop_last :: "nat \<Rightarrow> string \<Rightarrow> string" where
  "drop_last n x = take (length x - n) x"


definition startswith :: "string \<Rightarrow> string \<Rightarrow> bool" where
  "startswith x prefix = (take (length prefix) x = prefix)"

text \<open>\<^verbatim>\<open>'{count}'.format(count=n)\<close> for a count: decimal digits.\<close>

fun string_of_nat :: "nat \<Rightarrow> string" where
  "string_of_nat n =
     (if n < 10 then [char_of (48 + n)]
      else string_of_nat (n div 10) @ [char_of (48 + n mod 10)])"

declare string_of_nat.simps [simp del]

text \<open>\<^verbatim>\<open>'  {name: <24}{state: <12}{ip: <17}'.format(...)\<close>, the status line of \<^verbatim>\<open>ps\<close> and \<^verbatim>\<open>_ps\<close>.\<close>

definition status_line :: "string \<Rightarrow> string \<Rightarrow> string \<Rightarrow> string" where
  "status_line name state ip = ''  '' @ ljust 24 name @ ljust 12 state @ ljust 17 ip"

subsection \<open>\<^verbatim>\<open>Usage._clean_project_name\<close>, \<^verbatim>\<open>_get_config\<close>, \<^verbatim>\<open>_get_projectnames_in_dir\<close>\<close>

definition clean_project_name :: "string \<Rightarrow> string" where
  "clean_project_name name =
     (let name = (if endswith name ''.yml'' then drop_last 4 name else name);
          name = (if endswith name ''.yaml'' then drop_last 5 name else name)
      in name)"

text \<open>
  \<^verbatim>\<open>filename = path.abspath('{name}.yml'.format(name=name)); return config.load(filename)\<close>.
  The load is recorded among the calls, with the file name it was given.
\<close>

definition get_config :: "('w, 'c, 'p) env \<Rightarrow> string \<Rightarrow> ('w, 'c) prog" where
  "get_config env name =
     (let filename = abspath env (name @ ''.yml'')
      in (\<lambda>s. (config_load env (world s) filename, s\<lparr>calls := calls s @ [ConfigLoad filename]\<rparr>)))"

definition get_projectnames_in_dir :: "('w, 'c, 'p) env \<Rightarrow> ('w, string list) prog" where
  "get_projectnames_in_dir env =
     (\<lambda>s. (Inr (map clean_project_name
                  (filter (\<lambda>file. endswith file ''.yaml'' \<or> endswith file ''.yml'')
                     (listdir env (world s)))), s))"

subsection \<open>\<^verbatim>\<open>Usage.ps\<close>: the status view of one project\<close>

text \<open>The body of \<^verbatim>\<open>for container in containers\<close> (lines 214 to 223).\<close>

definition ps_container :: "container \<Rightarrow> ('w, unit) prog" where
  "ps_container c =
     (let name = name_without_project c;
          ip = ip_address c;
          ip = (if ip = [] then ''(host)'' else ip);
          state = human_readable_state c
      in print (status_line name state ip))"

text \<open>
  The body of \<^verbatim>\<open>for service in services\<close> (lines 207 to 223). A service is known to the
  module by its name and by the containers compose lists for it.
\<close>

definition ps_service :: "('w, 'c, 'p) env \<Rightarrow> 'p \<Rightarrow> string \<Rightarrow> ('w, unit) prog" where
  "ps_service env project service =
     bnd (query (\<lambda>w. service_containers env w project service True False)) (\<lambda>c1.
     bnd (query (\<lambda>w. service_containers env w project service False True)) (\<lambda>c2.
     bnd (if length (c1 @ c2) = 0
          then print (status_line service ''Uncreated'' [])
          else ret ()) (\<lambda>u.
     for_each (c1 @ c2) ps_container)))"

definition ps :: "('w, 'c, 'p) env \<Rightarrow> 'p \<Rightarrow> string \<Rightarrow> string list \<Rightarrow> ('w, unit) prog" where
  "ps env project projectname servicenames =
     bnd (print []) (\<lambda>u.
     bnd (print (''  '' @ projectname @ '' services:'')) (\<lambda>u.
     bnd (print []) (\<lambda>u.
     bnd (query (\<lambda>w. get_services env w project servicenames False)) (\<lambda>services.
     bnd (for_each services (ps_service env project)) (\<lambda>u.
     print [])))))"

subsection \<open>The management commands\<close>

definition build :: "('w, 'c, 'p) env \<Rightarrow> 'p \<Rightarrow> string \<Rightarrow> string list \<Rightarrow> ('w, unit) prog" where
  "build env project projectname servicenames =
     bnd (do_call (\<lambda>w. project_call env w project) (ProjectBuild servicenames False)) (\<lambda>r. ret ())"

definition rebuild :: "('w, 'c, 'p) env \<Rightarrow> 'p \<Rightarrow> string \<Rightarrow> string list \<Rightarrow> ('w, unit) prog" where
  "rebuild env project projectname servicenames =
     bnd (do_call (\<lambda>w. project_call env w project) (ProjectBuild servicenames True)) (\<lambda>r. ret ())"

definition kill :: "('w, 'c, 'p) env \<Rightarrow> 'p \<Rightarrow> string \<Rightarrow> string list \<Rightarrow> ('w, unit) prog" where
  "kill env project projectname servicenames =
     bnd (do_call (\<lambda>w. project_call env w project) (ProjectKill servicenames ''SIGTERM'')) (\<lambda>r.
     ps env project projectname servicenames)"

definition logs :: "('w, 'c, 'p) env \<Rightarrow> 'p \<Rightarrow> string \<Rightarrow> string list \<Rightarrow> ('w, unit) prog" where
  "logs env project projectname servicenames =
     bnd (query (\<lambda>w. project_containers env w project (Some servicenames) True False)) (\<lambda>containers.
     bnd (print (''Attaching to '' @ join '', '' (map cname containers))) (\<lambda>u.
     bnd (do_call (engine_call env) (LogPrinterRun (map cid containers))) (\<lambda>r. ret ())))"

definition pull :: "('w, 'c, 'p) env \<Rightarrow> 'p \<Rightarrow> string \<Rightarrow> string list \<Rightarrow> ('w, unit) prog" where
  "pull env project projectname servicenames =
     bnd (do_call (\<lambda>w. project_call env w project) (ProjectPull servicenames)) (\<lambda>r. ret ())"

definition rm :: "('w, 'c, 'p) env \<Rightarrow> 'p \<Rightarrow> string \<Rightarrow> string list \<Rightarrow> ('w, unit) prog" where
  "rm env project projectname servicenames =
     bnd (do_call (\<lambda>w. project_call env w project) (ProjectRemoveStopped servicenames)) (\<lambda>r.
     ps env project projectname servicenames)"

definition down :: "('w, 'c, 'p) env \<Rightarrow> 'p \<Rightarrow> string \<Rightarrow> string list \<Rightarrow> ('w, unit) prog" where
  "down env project projectname servicenames =
     bnd (do_call (\<lambda>w. project_call env w project) (ProjectKill servicenames ''SIGTERM'')) (\<lambda>r.
     bnd (do_call (\<lambda>w. project_call env w project) (ProjectStop servicenames)) (\<lambda>r.
     ps env project projectname servicenames))"

definition cull :: "('w, 'c, 'p) env \<Rightarrow> 'p \<Rightarrow> string \<Rightarrow> string list \<Rightarrow> ('w, unit) prog" where
  "cull env project projectname servicenames =
     bnd (do_call (\<lambda>w. project_call env w project) (ProjectKill servicenames ''SIGTERM'')) (\<lambda>r.
     bnd (do_call (\<lambda>w. project_call env w project) (ProjectStop servicenames)) (\<lambda>r.
     bnd (do_call (\<lambda>w. project_call env w project) (ProjectRemoveStopped servicenames)) (\<lambda>r.
     ps env project projectname servicenames)))"

definition recreate :: "('w, 'c, 'p) env \<Rightarrow> 'p \<Rightarrow> string \<Rightarrow> string list \<Rightarrow> ('w, unit) prog" where
  "recreate env project projectname servicenames =
     bnd (do_call (\<lambda>w. project_call env w project) (ProjectRestart servicenames)) (\<lambda>r.
     ps env project projectname servicenames)"

subsection \<open>\<^verbatim>\<open>Usage.up\<close>\<close>

text \<open>
  Lines 271 to 273: \<^verbatim>\<open>unknown = {}; for container in containers: unknown[container.id] = container\<close>.
\<close>

definition build_unknown :: "container list \<Rightarrow> (string \<times> container) list" where
  "build_unknown cs = fold (\<lambda>c d. dict_set (cid c) c d) cs []"

text \<open>Lines 278 to 279: \<^verbatim>\<open>for container in plan.containers: del unknown[container.id]\<close>.\<close>

fun del_containers :: "container list \<Rightarrow> (string \<times> 'v) list \<Rightarrow> exn + (string \<times> 'v) list" where
  "del_containers [] d = Inr d"
| "del_containers (c # cs) d =
     (case dict_del (cid c) d of Inl e \<Rightarrow> Inl e | Inr d' \<Rightarrow> del_containers cs d')"

text \<open>
  Lines 276 to 279. \<^verbatim>\<open>plans\<close> is the dictionary compose returns, here the list of its items
  in iteration order; \<^verbatim>\<open>for service in plans: plan = plans[service]\<close> visits each item once.
\<close>

fun del_plans :: "(string \<times> plan) list \<Rightarrow> (string \<times> 'v) list \<Rightarrow> exn + (string \<times> 'v) list" where
  "del_plans [] d = Inr d"
| "del_plans ((service, plan) # rest) d =
     (case del_containers (plan_containers plan) d of
        Inl e \<Rightarrow> Inl e
      | Inr d' \<Rightarrow> del_plans rest d')"

text \<open>Lines 270 to 279: the inventory, the plans, and what is left of \<^verbatim>\<open>unknown\<close>.\<close>

definition up_unknown ::
  "('w, 'c, 'p) env \<Rightarrow> 'p \<Rightarrow> string list \<Rightarrow> ('w, (string \<times> container) list) prog" where
  "up_unknown env project servicenames =
     bnd (query (\<lambda>w. project_containers env w project None True False)) (\<lambda>c1.
     bnd (query (\<lambda>w. project_containers env w project None False True)) (\<lambda>c2.
     bnd (query (\<lambda>w. get_services env w project servicenames True)) (\<lambda>services.
     bnd (query (\<lambda>w. get_convergence_plans env w project services)) (\<lambda>plans.
     lift (del_plans plans (build_unknown (c1 @ c2)))))))"

text \<open>The body of \<^verbatim>\<open>for id in unknown\<close> (lines 286 to 298).\<close>

definition reclaim_container :: "('w, 'c, 'p) env \<Rightarrow> container \<Rightarrow> ('w, unit) prog" where
  "reclaim_container env c =
     bnd (if is_running c then
            bnd (do_call (engine_call env) (Kill (cid c) ''SIGTERM'')) (\<lambda>r.
            bnd (except_ReadTimeout (do_call (engine_call env) (Wait (cid c) 10))) (\<lambda>u.
            bnd (do_call (engine_call env) (Stop (cid c))) (\<lambda>r.
            except_ReadTimeout (do_call (engine_call env) (Wait (cid c) 10)))))
          else ret ()) (\<lambda>u.
     bnd (do_call (engine_call env) (Remove (cid c))) (\<lambda>r. ret ()))"

text \<open>Lines 284 to 298. \<^verbatim>\<open>for id in unknown: container = unknown[id]\<close> visits each item once.\<close>

definition reclaim ::
  "('w, 'c, 'p) env \<Rightarrow> string list \<Rightarrow> (string \<times> container) list \<Rightarrow> ('w, unit) prog" where
  "reclaim env servicenames unknown =
     (if length servicenames = 0
      then for_each (map snd unknown) (reclaim_container env)
      else ret ())"

definition up :: "('w, 'c, 'p) env \<Rightarrow> 'p \<Rightarrow> string \<Rightarrow> string list \<Rightarrow> ('w, unit) prog" where
  "up env project projectname servicenames =
     bnd (up_unknown env project servicenames) (\<lambda>unknown.
     bnd (do_call (\<lambda>w. project_call env w project) (ProjectUp servicenames True)) (\<lambda>r.
     bnd (reclaim env servicenames unknown) (\<lambda>u.
     ps env project projectname servicenames)))"

subsection \<open>\<^verbatim>\<open>Usage.diff\<close>\<close>

text \<open>
  Lines 315 to 318: the inner loop deletes each container of the plan from \<^verbatim>\<open>unknown\<close> and
  collects its name.
\<close>

fun diff_containers ::
  "container list \<Rightarrow> (string \<times> 'v) list \<Rightarrow> string list \<Rightarrow> exn + ((string \<times> 'v) list \<times> string list)" where
  "diff_containers [] d names = Inr (d, names)"
| "diff_containers (c # cs) d names =
     (case dict_del (cid c) d of
        Inl e \<Rightarrow> Inl e
      | Inr d' \<Rightarrow> diff_containers cs d' (names @ [cname c]))"

text \<open>\<^verbatim>\<open>'  {name: <24}{action: <12}{containers}'.format(...)\<close>\<close>

definition plan_line :: "string \<Rightarrow> string \<Rightarrow> string list \<Rightarrow> string" where
  "plan_line service action names =
     ''  '' @ ljust 24 service @ ljust 12 action @ join '', '' names"

text \<open>Lines 313 to 322: one line per plan, printed as soon as its containers are deleted.\<close>

fun diff_plans ::
  "(string \<times> plan) list \<Rightarrow> (string \<times> 'v) list \<Rightarrow> ('w, (string \<times> 'v) list) prog" where
  "diff_plans [] d = ret d"
| "diff_plans ((service, plan) # rest) d =
     bnd (lift (diff_containers (plan_containers plan) d [])) (\<lambda>(d', names).
     bnd (print (plan_line service (plan_action plan) names)) (\<lambda>u.
     diff_plans rest d'))"

text \<open>\<^verbatim>\<open>'  {name: <24}{action: <12}'.format(name=container.name, action='delete')\<close>\<close>

definition delete_line :: "container \<Rightarrow> string" where
  "delete_line c = ''  '' @ ljust 24 (cname c) @ ljust 12 ''delete''"

text \<open>Lines 303 to 322: the inventory, the plans, the plan lines, and what is left of \<^verbatim>\<open>unknown\<close>.\<close>

definition diff_unknown ::
  "('w, 'c, 'p) env \<Rightarrow> 'p \<Rightarrow> string \<Rightarrow> string list \<Rightarrow> ('w, (string \<times> container) list) prog" where
  "diff_unknown env project projectname servicenames =
     bnd (query (\<lambda>w. project_containers env w project None True False)) (\<lambda>c1.
     bnd (query (\<lambda>w. project_containers env w project None False True)) (\<lambda>c2.
     bnd (query (\<lambda>w. get_services env w project servicenames True)) (\<lambda>services.
     bnd (query (\<lambda>w. get_convergence_plans env w project services)) (\<lambda>plans.
     bnd (print []) (\<lambda>u.
     bnd (print (''  '' @ projectname @ '' convergence plan:'')) (\<lambda>u.
     bnd (print []) (\<lambda>u.
     diff_plans plans (build_unknown (c1 @ c2)))))))))"

definition diff :: "('w, 'c, 'p) env \<Rightarrow> 'p \<Rightarrow> string \<Rightarrow> string list \<Rightarrow> ('w, unit) prog" where
  "diff env project projectname servicenames =
     bnd (diff_unknown env project projectname servicenames) (\<lambda>unknown.
     bnd (for_each (map snd unknown) (\<lambda>container. print (delete_line container))) (\<lambda>u.
     print []))"

subsection \<open>\<^verbatim>\<open>Usage._ps\<close>: the overview of every project in the directory\<close>

text \<open>Lines 147 to 150: every container of the host is inspected and stored under its id.\<close>

fun inspect_all ::
  "('w, 'c, 'p) env \<Rightarrow> string list \<Rightarrow> (string \<times> detail) list \<Rightarrow> ('w, (string \<times> detail) list) prog" where
  "inspect_all env [] d = ret d"
| "inspect_all env (i # ids) d =
     bnd (query (\<lambda>w. inspect_container env w i)) (\<lambda>det.
     inspect_all env ids (dict_set i det d))"

text \<open>\<^verbatim>\<open>if not k in counts: counts[k] = 0\<close> followed by \<^verbatim>\<open>counts[k] += 1\<close>.\<close>

definition bump_count :: "string \<Rightarrow> (string \<times> nat) list \<Rightarrow> (string \<times> nat) list" where
  "bump_count k counts =
     (let counts = (if k \<notin> fst ` set counts then dict_set k 0 counts else counts)
      in dict_set k ((case map_of counts k of Some n \<Rightarrow> n | None \<Rightarrow> 0) + 1) counts)"

text \<open>Lines 169 to 173.\<close>

fun ps_all_containers ::
  "container list \<Rightarrow> (string \<times> 'v) list \<Rightarrow> (string \<times> nat) list
     \<Rightarrow> exn + ((string \<times> 'v) list \<times> (string \<times> nat) list)" where
  "ps_all_containers [] d counts = Inr (d, counts)"
| "ps_all_containers (c # cs) d counts =
     (case dict_del (cid c) d of
        Inl e \<Rightarrow> Inl e
      | Inr d' \<Rightarrow> ps_all_containers cs d' (bump_count (human_readable_state c) counts))"

text \<open>Lines 163 to 173.\<close>

fun ps_all_services ::
  "('w, 'c, 'p) env \<Rightarrow> 'p \<Rightarrow> string list \<Rightarrow> (string \<times> 'v) list \<Rightarrow> (string \<times> nat) list
     \<Rightarrow> ('w, (string \<times> 'v) list \<times> (string \<times> nat) list) prog" where
  "ps_all_services env project [] d counts = ret (d, counts)"
| "ps_all_services env project (service # rest) d counts =
     bnd (query (\<lambda>w. service_containers env w project service True False)) (\<lambda>c1.
     bnd (query (\<lambda>w. service_containers env w project service False True)) (\<lambda>c2.
     bnd (lift (ps_all_containers (c1 @ c2) d
                 (if length (c1 @ c2) = 0 then bump_count ''Uncreated'' counts else counts)))
       (\<lambda>(d', counts').
     ps_all_services env project rest d' counts')))"

text \<open>\<^verbatim>\<open>'  {name: <24}{counts}'.format(name=projectname, counts=','.join(humancounts))\<close>\<close>

definition counts_line :: "string \<Rightarrow> (string \<times> nat) list \<Rightarrow> string" where
  "counts_line projectname counts =
     ''  '' @ ljust 24 projectname
       @ join '','' (map (\<lambda>(state, count). string_of_nat count @ '' '' @ state) counts)"

text \<open>Lines 153 to 182. \<^verbatim>\<open>project.get_services()\<close> names no service.\<close>

fun ps_all_projects ::
  "('w, 'c, 'p) env \<Rightarrow> string list \<Rightarrow> (string \<times> 'v) list \<Rightarrow> ('w, (string \<times> 'v) list) prog" where
  "ps_all_projects env [] d = ret d"
| "ps_all_projects env (projectname # rest) d =
     bnd (get_config env projectname) (\<lambda>config.
     bnd (lift (from_dicts env projectname config)) (\<lambda>project.
     bnd (query (\<lambda>w. get_services env w project [] False)) (\<lambda>services.
     bnd (ps_all_services env project services d []) (\<lambda>(d', counts).
     bnd (print (counts_line projectname counts)) (\<lambda>u.
     ps_all_projects env rest d')))))"

text \<open>Lines 189 to 199: the line of a container no project of the directory owns.\<close>

definition untracked_line :: "detail \<Rightarrow> string" where
  "untracked_line det =
     (let name = detail_name det;
          name = (if startswith name ''/'' then drop 1 name else name);
          ip = detail_ip det;
          ip = (if ip = [] then ''(host)'' else ip)
      in status_line name [] ip)"

definition ps_all :: "('w, 'c, 'p) env \<Rightarrow> ('w, unit) prog" where
  "ps_all env =
     bnd (get_projectnames_in_dir env) (\<lambda>projectnames.
     bnd (query (client_containers env)) (\<lambda>containers.
     bnd (inspect_all env containers []) (\<lambda>unknown.
     bnd (if length projectnames \<noteq> 0 then print [] else ret ()) (\<lambda>u.
     bnd (ps_all_projects env projectnames unknown) (\<lambda>unknown.
     bnd (if length unknown \<noteq> 0
          then bnd (print []) (\<lambda>u.
               bnd (print ''  Containers not tracked by compose/tugboat:'') (\<lambda>u.
               print []))
          else ret ()) (\<lambda>u.
     bnd (for_each (map snd unknown) (\<lambda>det. print (untracked_line det))) (\<lambda>u.
     print [])))))))"

subsection \<open>\<^verbatim>\<open>Usage._exec\<close>\<close>

text \<open>
  \<^verbatim>\<open>commands\<close> may be \<^verbatim>\<open>None\<close> or a list. The process ends with the return code of
  \<^verbatim>\<open>subprocess.call\<close>.
\<close>

definition exec ::
  "('w, 'c, 'p) env \<Rightarrow> string \<Rightarrow> string \<Rightarrow> string list option \<Rightarrow> ('w, unit) prog" where
  "exec env projectname servicename commands =
     (let containername = projectname @ ''_'' @ servicename @ ''_1'';
          command = (case commands of
                       None \<Rightarrow> [''/bin/bash'']
                     | Some cs \<Rightarrow> if cs = [] then [''/bin/bash''] else cs)
      in bnd (print []) (\<lambda>u.
         bnd (print (''  docker exec -it '' @ containername @ '' '' @ join '' '' command)) (\<lambda>u.
         bnd (print []) (\<lambda>u.
         bnd (do_call (engine_call env)
                (SubprocessCall ([''docker'', ''exec'', ''-it'', containername] @ command))) (\<lambda>rc.
         raise (SystemExit (Code rc)))))))"

subsection \<open>\<^verbatim>\<open>Usage.__init__\<close>: parsing and dispatch\<close>

text \<open>What docopt returns for the usage pattern: the keys \<^verbatim>\<open>__init__\<close> reads.\<close>

record options =
  opt_ps :: bool
  opt_exec :: bool
  opt_COMMAND :: string
  opt_PROJECT :: string
  opt_SERVICE :: string
  opt_SERVICES :: "string list"
  opt_COMMANDS :: "string list option"

text \<open>\<^verbatim>\<open>getdoc(Usage)\<close>: the class docstring, indentation removed.\<close>

definition docstring :: string where
  "docstring = join [CHR 0x0A]
     [''Describe your infrastructure with yaml files.'',
      [],
      ''Usage:'',
      ''    tug2 ps'',
      ''    tug2 exec PROJECT SERVICE [COMMANDS ...]'',
      ''    tug2 COMMAND PROJECT [SERVICES ...]'',
      [],
      ''Common Commands:'',
      [],
      ''    ps             List all running and available projects'',
      ''    up             Update and run services'',
      ''    diff           Describe the changes needed to update'',
      ''    cull           Stop and delete services'',
      ''    logs           Display container logs'',
      ''    exec           Run a command inside a container (not implemented yet)'',
      [],
      ''Management Commands:'',
      [],
      ''    kill           Gracefully terminate services'',
      ''    down           Stop services'',
      ''    rm             Delete services'',
      ''    recreate       Stop, delete, then run services'',
      ''    build          Build services'',
      ''    rebuild        Build services from scratch'',
      [],
      ''Options:'',
      [],
      ''    -h --help      Display this usage information'',
      ''    -v --version   Display the version number'']"

text \<open>
  The methods of the class that cannot be called with the three arguments
  \<^verbatim>\<open>(project, projectname, servicenames)\<close>: each takes fewer.
\<close>

definition helper_methods :: "string list" where
  "helper_methods =
     [''_ps'', ''_clean_project_name'', ''_get_config'', ''_get_projectnames_in_dir'',
      ''__init__'']"

text \<open>
  \<^verbatim>\<open>hasattr(self, command)\<close>, \<^verbatim>\<open>getattr(self, command)\<close> and the call
  \<^verbatim>\<open>handle(project, projectname, servicenames)\<close>. \<open>None\<close> is \<^verbatim>\<open>hasattr\<close> being false.
  The twelve commands are the methods with these three parameters. \<^verbatim>\<open>_exec\<close> has three
  parameters too, \<^verbatim>\<open>(projectname, servicename, commands)\<close>, so the call runs it with the
  \<^verbatim>\<open>Project\<close> object, formatted by \<^verbatim>\<open>str\<close>, in place of the project name, the project name
  in place of the service name and the service names as the commands. The helper
  methods pass \<^verbatim>\<open>hasattr\<close>, and calling one with three arguments raises \<^verbatim>\<open>TypeError\<close>.
  What the instance has without the class defining it passes \<^verbatim>\<open>hasattr\<close> too, and the
  call does what the interpreter says.
\<close>

definition handler ::
  "('w, 'c, 'p) env \<Rightarrow> string \<Rightarrow> ('p \<Rightarrow> string \<Rightarrow> string list \<Rightarrow> ('w, unit) prog) option" where
  "handler env command =
     (if command = ''ps'' then Some (ps env)
      else if command = ''build'' then Some (build env)
      else if command = ''rebuild'' then Some (rebuild env)
      else if command = ''kill'' then Some (kill env)
      else if command = ''logs'' then Some (logs env)
      else if command = ''pull'' then Some (pull env)
      else if command = ''rm'' then Some (rm env)
      else if command = ''down'' then Some (down env)
      else if command = ''cull'' then Some (cull env)
      else if command = ''recreate'' then Some (recreate env)
      else if command = ''up'' then Some (up env)
      else if command = ''diff'' then Some (diff env)
      else if command = ''_exec''
      then Some (\<lambda>project projectname servicenames.
                   exec env (project_str env project) projectname (Some servicenames))
      else if command \<in> set helper_methods
      then Some (\<lambda>project projectname servicenames. raise (OtherError ''TypeError''))
      else (case object_attr env command of
              None \<Rightarrow> None
            | Some attr \<Rightarrow>
                Some (\<lambda>project projectname servicenames.
                        lift (attr project projectname servicenames))))"

text \<open>
  \<^verbatim>\<open>Usage()\<close>, given what \<^verbatim>\<open>docopt(...)\<close> returned or raised for the command line.
\<close>

definition Usage :: "('w, 'c, 'p) env \<Rightarrow> exn + options \<Rightarrow> ('w, unit) prog" where
  "Usage env parsed =
     (case parsed of
        Inl DocoptExit \<Rightarrow> raise (SystemExit (Message docstring))
      | Inl e \<Rightarrow> raise e
      | Inr options \<Rightarrow>
          if opt_ps options then ps_all env
          else if opt_exec options
          then exec env (opt_PROJECT options) (opt_SERVICE options) (opt_COMMANDS options)
          else (case handler env (opt_COMMAND options) of
                  None \<Rightarrow>
                    bnd (print (opt_COMMAND options @ '' command not found'')) (\<lambda>u.
                    raise (SystemExit (Code 1)))
                | Some handle \<Rightarrow>
                    bnd (get_config env (opt_PROJECT options)) (\<lambda>config.
                    bnd (lift (from_dicts env (opt_PROJECT options) config)) (\<lambda>project.
                    handle project (opt_PROJECT options) (opt_SERVICES options)))))"

subsection \<open>\<^verbatim>\<open>main\<close>: the top-level exception handlers\<close>

text \<open>
  \<^verbatim>\<open>sys.exit(1)\<close> raises \<open>SystemExit (Code 1)\<close>, which leaves \<^verbatim>\<open>main\<close>; an exception no
  clause matches leaves it unchanged.
\<close>

definition main :: "('w, unit) prog \<Rightarrow> ('w, unit) prog" where
  "main usage = (\<lambda>s. case usage s of
       (Inl KeyboardInterrupt, s') \<Rightarrow>
         bnd (print (CHR 0x0A # ''Aborting.'')) (\<lambda>u. raise (SystemExit (Code 1))) s'
     | (Inl (NoSuchService msg), s') \<Rightarrow>
         bnd (print msg) (\<lambda>u. raise (SystemExit (Code 1))) s'
     | (Inl (ConfigurationError msg), s') \<Rightarrow>
         bnd (print msg) (\<lambda>u. raise (SystemExit (Code 1))) s'
     | (Inl (LegacyContainersError msg), s') \<Rightarrow>
         bnd (print msg) (\<lambda>u. raise (SystemExit (Code 1))) s'
     | (Inl (APIError explanation), s') \<Rightarrow>
         bnd (print explanation) (\<lambda>u. raise (SystemExit (Code 1))) s'
     | (Inl (BuildError service reason), s') \<Rightarrow>
         bnd (print (''Service '' @ [CHR 0x27] @ service @ [CHR 0x27]
                       @ '' failed to build: '' @ reason)) (\<lambda>u.
         raise (SystemExit (Code 1))) s'
     | (Inl e, s') \<Rightarrow> (Inl e, s')
     | (Inr u, s') \<Rightarrow> (Inr u, s'))"

section \<open>Observations and reference behaviour\<close>

subsection \<open>What a command adds to the calls\<close>

text \<open>The calls made between the state \<open>s\<close> a command starts in and the state \<open>s'\<close> it ends in.\<close>

definition new_calls :: "'w st \<Rightarrow> 'w st \<Rightarrow> call list" where
  "new_calls s s' = drop (length (calls s)) (calls s')"


text \<open>
  \<open>emits P m\<close>: whatever the state, \<open>m\<close> only appends to the calls, and every call it
  appends satisfies \<open>P\<close>.
\<close>

definition emits :: "(call \<Rightarrow> bool) \<Rightarrow> ('w, 'a) prog \<Rightarrow> bool" where
  "emits P m = (\<forall>s. \<exists>new. calls (snd (m s)) = calls s @ new \<and> list_all P new)"

text \<open>\<open>quiet m\<close>: \<open>m\<close> leaves the world and the calls as they are.\<close>

definition quiet :: "('w, 'a) prog \<Rightarrow> bool" where
  "quiet m = (\<forall>s. world (snd (m s)) = world s \<and> calls (snd (m s)) = calls s)"

subsection \<open>The top-level handlers as a table\<close>

text \<open>
  The exception classes the specification lists as caught by \<^verbatim>\<open>main\<close>, each with the
  message it prints before the process exits with status 1.
\<close>

definition claimed_top_level_message :: "exn \<Rightarrow> string option" where
  "claimed_top_level_message e =
     (case e of
        ConfigurationError msg \<Rightarrow> Some msg
      | NoSuchService msg \<Rightarrow> Some msg
      | APIError explanation \<Rightarrow> Some explanation
      | BuildError service reason \<Rightarrow>
          Some (''Service '' @ [CHR 0x27] @ service @ [CHR 0x27] @ '' failed to build: '' @ reason)
      | KeyboardInterrupt \<Rightarrow> Some (CHR 0x0A # ''Aborting.'')
      | _ \<Rightarrow> None)"

text \<open>The same table with the class of legacy-container errors added.\<close>

definition top_level_message :: "exn \<Rightarrow> string option" where
  "top_level_message e =
     (case e of
        LegacyContainersError msg \<Rightarrow> Some msg
      | _ \<Rightarrow> claimed_top_level_message e)"

subsection \<open>Deleting a list of keys\<close>

text \<open>
  \<^verbatim>\<open>del unknown[k]\<close> for each key of a list in turn; the loops of \<^verbatim>\<open>up\<close>, \<^verbatim>\<open>diff\<close> and
  \<^verbatim>\<open>_ps\<close> are compared with it.
\<close>

fun del_keys :: "string list \<Rightarrow> (string \<times> 'v) list \<Rightarrow> exn + (string \<times> 'v) list" where
  "del_keys [] d = Inr d"
| "del_keys (k # ks) d =
     (case dict_del k d of Inl e \<Rightarrow> Inl e | Inr d' \<Rightarrow> del_keys ks d')"

text \<open>The ids of the containers of all plans, in the order the loops visit them.\<close>

definition plan_container_ids :: "(string \<times> plan) list \<Rightarrow> string list" where
  "plan_container_ids plans = concat (map (\<lambda>(service, plan). map cid (plan_containers plan)) plans)"

subsection \<open>The plan view, line by line\<close>

text \<open>The line \<^verbatim>\<open>diff\<close> prints for one item of the plans.\<close>

definition plan_line_of :: "string \<times> plan \<Rightarrow> string" where
  "plan_line_of sp = plan_line (fst sp) (plan_action (snd sp)) (map cname (plan_containers (snd sp)))"

subsection \<open>What bare \<^verbatim>\<open>ps\<close> visits\<close>

text \<open>
  The ids bare \<^verbatim>\<open>ps\<close> deletes from its dictionary, in order: for each project name, for
  each of its services, the containers compose lists for the service.
\<close>

definition owned_ids ::
  "(string \<Rightarrow> string list) \<Rightarrow> (string \<Rightarrow> string \<Rightarrow> container list) \<Rightarrow> string list \<Rightarrow> string list" where
  "owned_ids svcs live projectnames =
     concat (map (\<lambda>pn. concat (map (\<lambda>sv. map cid (live pn sv)) (svcs pn))) projectnames)"

text \<open>The list comprehension of \<^verbatim>\<open>_get_projectnames_in_dir\<close> on a directory listing.\<close>

definition projectnames_in_dir :: "string list \<Rightarrow> string list" where
  "projectnames_in_dir files =
     map clean_project_name
       (filter (\<lambda>file. endswith file ''.yaml'' \<or> endswith file ''.yml'') files)"

subsection \<open>The status view, line by line\<close>

text \<open>The status line of one container, with \<^verbatim>\<open>(host)\<close> for an empty address.\<close>

definition container_status_line :: "container \<Rightarrow> string" where
  "container_status_line c =
     status_line (name_without_project c) (human_readable_state c)
       (if ip_address c = [] then ''(host)'' else ip_address c)"

text \<open>
  The lines of one service: a single \<^verbatim>\<open>Uncreated\<close> line when it has no container, one
  line per container otherwise.
\<close>

definition service_status_lines :: "string \<Rightarrow> container list \<Rightarrow> string list" where
  "service_status_lines service cs =
     (if cs = [] then [status_line service ''Uncreated'' []] else map container_status_line cs)"

subsection \<open>The teardown of one orphan\<close>

text \<open>
  The calls the reclaimer is to make for one orphan: for a running container the
  termination signal, a wait of up to ten seconds, the stop, a second wait, the removal;
  for a stopped one the removal alone.
\<close>

definition reclaim_protocol :: "container \<Rightarrow> call list" where
  "reclaim_protocol c =
     (if is_running c
      then [Kill (cid c) ''SIGTERM'', Wait (cid c) 10, Stop (cid c), Wait (cid c) 10, Remove (cid c)]
      else [Remove (cid c)])"

text \<open>
  The engine does not fail the reclaimer: \<^verbatim>\<open>kill\<close>, \<^verbatim>\<open>stop\<close> and \<^verbatim>\<open>remove\<close> return, and a
  wait either returns or times out.
\<close>

definition reclaim_calls_succeed :: "('w, 'c, 'p) env \<Rightarrow> bool" where
  "reclaim_calls_succeed env =
     (\<forall>w i. (\<exists>r. fst (engine_call env w (Kill i ''SIGTERM'')) = Inr r)
          \<and> (\<exists>r. fst (engine_call env w (Stop i)) = Inr r)
          \<and> (\<exists>r. fst (engine_call env w (Remove i)) = Inr r)
          \<and> (fst (engine_call env w (Wait i 10)) = Inl ReadTimeout
              \<or> (\<exists>r. fst (engine_call env w (Wait i 10)) = Inr r)))"

subsection \<open>The convergence planner\<close>




section \<open>A sample environment\<close>

text \<open>
  A small simulated host for the concrete instances below: project \<^verbatim>\<open>web\<close> declares the
  services \<^verbatim>\<open>app\<close> and \<^verbatim>\<open>db\<close>; \<^verbatim>\<open>web_app_1\<close> runs, two containers of a service that is
  no longer declared are left over (one running with host networking, one stopped), and
  applying the plans creates \<^verbatim>\<open>web_db_1\<close>. Waiting for \<^verbatim>\<open>o1\<close> times out.
\<close>

definition app1 :: container where
  "app1 = \<lparr>cid = ''a1'', cname = ''web_app_1'', name_without_project = ''app_1'',
           is_running = True, human_readable_state = ''Up'', ip_address = ''172.17.0.2''\<rparr>"

definition old1 :: container where
  "old1 = \<lparr>cid = ''o1'', cname = ''web_old_1'', name_without_project = ''old_1'',
           is_running = True, human_readable_state = ''Up'', ip_address = []\<rparr>"

definition old2 :: container where
  "old2 = \<lparr>cid = ''o2'', cname = ''web_old_2'', name_without_project = ''old_2'',
           is_running = False, human_readable_state = ''Exit 0'', ip_address = []\<rparr>"

definition db1 :: container where
  "db1 = \<lparr>cid = ''d1'', cname = ''web_db_1'', name_without_project = ''db_1'',
           is_running = True, human_readable_state = ''Up'', ip_address = ''172.17.0.3''\<rparr>"

definition of_service :: "string \<Rightarrow> container list \<Rightarrow> container list" where
  "of_service service w = filter (\<lambda>c. name_without_project c = service @ ''_1'') w"

definition demo_plan :: "container list \<Rightarrow> string \<Rightarrow> string \<times> plan" where
  "demo_plan w service =
     (service, \<lparr>plan_action = (if of_service service w = [] then ''create'' else ''noop''),
                plan_containers = of_service service w\<rparr>)"

definition demo_engine_call :: "container list \<Rightarrow> call \<Rightarrow> (exn + int) \<times> container list" where
  "demo_engine_call w c =
     (case c of
        Wait i t \<Rightarrow> (if i = ''o1'' \<and> t = 10 then Inl ReadTimeout else Inr 0, w)
      | Remove i \<Rightarrow> (Inr 0, filter (\<lambda>c. cid c \<noteq> i) w)
      | _ \<Rightarrow> (Inr 0, w))"

definition demo_project_call :: "container list \<Rightarrow> string \<Rightarrow> call \<Rightarrow> (exn + int) \<times> container list" where
  "demo_project_call w p c =
     (case c of
        ProjectUp names smart \<Rightarrow> (Inr 0, if of_service ''db'' w = [] then w @ [db1] else w)
      | _ \<Rightarrow> (Inr 0, w))"

definition demo_env :: "(container list, unit, string) env" where
  "demo_env = \<lparr>
     abspath = (\<lambda>p. ''/srv/'' @ p),
     listdir = (\<lambda>w. [''web.yml'', ''README'']),
     config_load = (\<lambda>w f. if f = ''/srv/web.yml'' then Inr ()
                            else Inl (ConfigurationError ''No such file'')),
     from_dicts = (\<lambda>name config. Inr name),
     project_containers = (\<lambda>w p names stopped one_off. Inr (if one_off then [] else w)),
     get_services = (\<lambda>w p names deps.
        if names = [] then Inr [''app'', ''db'']
        else if set names \<subseteq> {''app'', ''db''} then Inr names
        else Inl (NoSuchService ''No such service'')),
     service_containers = (\<lambda>w p service stopped one_off.
        Inr (if one_off then [] else of_service service w)),
     get_convergence_plans = (\<lambda>w p services. Inr (map (demo_plan w) services)),
     client_containers = (\<lambda>w. Inr (map cid w)),
     inspect_container = (\<lambda>w i.
        case find (\<lambda>c. cid c = i) w of
          Some c \<Rightarrow> Inr \<lparr>detail_name = ''/'' @ cname c, detail_ip = ip_address c\<rparr>
        | None \<Rightarrow> Inl (APIError ''No such container'')),
     project_call = demo_project_call,
     engine_call = demo_engine_call,
     project_str = (\<lambda>p. ''<Project '' @ p @ ''>''),
     object_attr = (\<lambda>name.
       if name \<in> set [''__class__'', ''__doc__'', ''__repr__'']
       then Some (\<lambda>project projectname servicenames. Inl (OtherError ''TypeError''))
       else if name = ''__subclasshook__''
       then Some (\<lambda>project projectname servicenames. Inr ())
       else None)\<rparr>"

definition demo_state :: "container list st" where
  "demo_state = \<lparr>world = [app1, old1, old2], out = [], calls = []\<rparr>"

text \<open>The options of \<^verbatim>\<open>tug2 COMMAND PROJECT\<close> with no service names.\<close>

definition demo_options :: "string \<Rightarrow> string \<Rightarrow> options" where
  "demo_options command project =
     \<lparr>opt_ps = False, opt_exec = False, opt_COMMAND = command, opt_PROJECT = project,
      opt_SERVICE = [], opt_SERVICES = [], opt_COMMANDS = Some []\<rparr>"


text \<open>
  The same host seen through a compose that lists \<^verbatim>\<open>web_app_1\<close> for both services, so
  that its id is deleted twice.
\<close>

definition dup_env :: "(container list, unit, string) env" where
  "dup_env = demo_env\<lparr>
     service_containers := (\<lambda>w p service stopped one_off. Inr (if one_off then [] else [app1])),
     get_convergence_plans := (\<lambda>w p services.
        Inr (map (\<lambda>service. (service, \<lparr>plan_action = ''noop'', plan_containers = [app1]\<rparr>))
               services))\<rparr>"


section \<open>Auxiliary lemmas\<close>

subsection \<open>Calls only grow\<close>

lemma emitsI: "(\<And>s. \<exists>new. calls (snd (m s)) = calls s @ new \<and> list_all P new) \<Longrightarrow> emits P m"
  by (simp add: emits_def)

lemma emitsD: "emits P m \<Longrightarrow> \<exists>new. calls (snd (m s)) = calls s @ new \<and> list_all P new"
  by (simp add: emits_def)

lemma emits_ret: "emits P (ret x)"
  by (simp add: emits_def ret_def)



lemma emits_query: "emits P (query q)"
  by (simp add: emits_def query_def)

lemma emits_print: "emits P (print x)"
  by (simp add: emits_def print_def)

lemma emits_do_call: "P c \<Longrightarrow> emits P (do_call f c)"
  by (simp add: emits_def do_call_def split: prod.splits)

lemma emits_bnd:
  assumes "emits P m" and "\<And>x. emits P (f x)"
  shows "emits P (bnd m f)"
proof (rule emitsI)
  fix s
  obtain r s' where ms: "m s = (r, s')" by (cases "m s")
  from emitsD [OF assms(1), of s] ms obtain n1 where n1: "calls s' = calls s @ n1" "list_all P n1"
    by auto
  show "\<exists>new. calls (snd (bnd m f s)) = calls s @ new \<and> list_all P new"
  proof (cases r)
    case (Inl e)
    with ms n1 show ?thesis by (simp add: bnd_def)
  next
    case (Inr x)
    from emitsD [OF assms(2), of x s'] obtain n2 where
      "calls (snd (f x s')) = calls s' @ n2" "list_all P n2" by auto
    with ms n1 Inr show ?thesis by (simp add: bnd_def)
  qed
qed

lemma emits_except: "emits P m \<Longrightarrow> emits P (except_ReadTimeout m)"
  apply (rule emitsI)
  subgoal for s
    using emitsD [of P m s]
    by (auto simp: except_ReadTimeout_def split: prod.splits sum.splits exn.splits)
  done

lemma emits_for_each: "(\<And>x. emits P (body x)) \<Longrightarrow> emits P (for_each xs body)"
  by (induction xs) (auto intro: emits_ret emits_bnd)

lemma emits_if: "emits P a \<Longrightarrow> emits P b \<Longrightarrow> emits P (if c then a else b)"
  by simp

lemma emits_ps: "emits P (ps env project projectname servicenames)"
  unfolding ps_def ps_service_def ps_container_def Let_def
  by (intro emits_bnd emits_print emits_query emits_for_each emits_if emits_ret)







lemma new_calls_append: "calls s' = calls s @ new \<Longrightarrow> new_calls s s' = new"
  by (simp add: new_calls_def)

subsection \<open>The top-level handlers, one exception at a time\<close>

lemma main_raise:
  assumes "usage s = (Inl e, s')"
  shows "main usage s =
           (case top_level_message e of
              Some m \<Rightarrow> (Inl (SystemExit (Code 1)), s'\<lparr>out := out s' @ [m]\<rparr>)
            | None \<Rightarrow> (Inl e, s'))"
  using assms
  by (cases e)
    (simp_all add: main_def top_level_message_def claimed_top_level_message_def
       bnd_def print_def raise_def)

subsection \<open>Dictionaries: building and deleting\<close>

lemma del_keys_append:
  "del_keys (ks @ ks') d = (case del_keys ks d of Inl e \<Rightarrow> Inl e | Inr d' \<Rightarrow> del_keys ks' d')"
  by (induction ks arbitrary: d) (auto split: sum.splits)

lemma delete_filter: "AList.delete k d = filter (\<lambda>kv. fst kv \<noteq> k) d"
  by (induction d) auto

lemma del_keys_Inr_iff:
  "del_keys ks d = Inr d' \<longleftrightarrow>
     distinct ks \<and> set ks \<subseteq> fst ` set d \<and> d' = filter (\<lambda>kv. fst kv \<notin> set ks) d"
proof (induction ks arbitrary: d)
  case Nil
  show ?case by auto
next
  case (Cons k ks)
  show ?case
  proof (cases "k \<in> fst ` set d")
    case False
    then show ?thesis by (auto simp: dict_del_def)
  next
    case True
    have keys: "fst ` set (AList.delete k d) = fst ` set d - {k}"
      by (auto simp: delete_filter)
    have flt: "filter (\<lambda>kv. fst kv \<notin> set ks) (AList.delete k d)
                 = filter (\<lambda>kv. fst kv \<notin> set (k # ks)) d"
      by (simp add: delete_filter)
    from True have "del_keys (k # ks) d = del_keys ks (AList.delete k d)"
      by (simp add: dict_del_def)
    then show ?thesis
      using True Cons.IH [of "AList.delete k d"] keys flt by auto
  qed
qed

lemma del_keys_cases:
  "(\<exists>d'. del_keys ks d = Inr d') \<or> (\<exists>k \<in> set ks. del_keys ks d = Inl (KeyError k))"
  by (induction ks arbitrary: d) (auto simp: dict_del_def split: sum.splits)

lemma del_keys_KeyError_iff:
  "(\<exists>k. del_keys ks d = Inl (KeyError k)) \<longleftrightarrow> \<not> (distinct ks \<and> set ks \<subseteq> fst ` set d)"
proof
  assume "\<exists>k. del_keys ks d = Inl (KeyError k)"
  then show "\<not> (distinct ks \<and> set ks \<subseteq> fst ` set d)"
    using del_keys_Inr_iff [of ks d "filter (\<lambda>kv. fst kv \<notin> set ks) d"] by auto
next
  assume "\<not> (distinct ks \<and> set ks \<subseteq> fst ` set d)"
  then have "\<nexists>d'. del_keys ks d = Inr d'"
    using del_keys_Inr_iff [of ks d] by blast
  with del_keys_cases [of ks d] show "\<exists>k. del_keys ks d = Inl (KeyError k)"
    by blast
qed

lemma del_containers_keys: "del_containers cs d = del_keys (map cid cs) d"
  by (induction cs arbitrary: d) (auto split: sum.splits)

lemma del_plans_keys: "del_plans plans d = del_keys (plan_container_ids plans) d"
proof (induction plans arbitrary: d)
  case Nil
  show ?case by (simp add: plan_container_ids_def)
next
  case (Cons a plans)
  obtain service plan where a: "a = (service, plan)" by (cases a)
  have ids: "plan_container_ids (a # plans) = map cid (plan_containers plan) @ plan_container_ids plans"
    by (simp add: a plan_container_ids_def)
  have "del_plans (a # plans) d =
          (case del_keys (map cid (plan_containers plan)) d of
             Inl e \<Rightarrow> Inl e
           | Inr d' \<Rightarrow> del_keys (plan_container_ids plans) d')"
    by (simp add: a del_containers_keys Cons.IH split: sum.splits)
  then show ?case
    by (simp add: ids del_keys_append)
qed

lemma diff_containers_keys:
  "diff_containers cs d names =
     (case del_keys (map cid cs) d of
        Inl e \<Rightarrow> Inl e
      | Inr d' \<Rightarrow> Inr (d', names @ map cname cs))"
  by (induction cs arbitrary: d names) (auto split: sum.splits)

lemma build_unknown_snoc: "build_unknown (cs @ [c]) = dict_set (cid c) c (build_unknown cs)"
  by (simp add: build_unknown_def)

lemma build_unknown_keys: "fst ` set (build_unknown cs) = cid ` set cs"
  by (induction cs rule: rev_induct)
    (auto simp: build_unknown_snoc dict_set_def dom_update, simp add: build_unknown_def)

lemma build_unknown_distinct: "distinct (map fst (build_unknown cs))"
  by (induction cs rule: rev_induct)
    (simp_all add: build_unknown_snoc dict_set_def distinct_update, simp add: build_unknown_def)

lemma set_update_subset: "set (AList.update k v al) \<subseteq> insert (k, v) (set al)"
  by (induction al) auto

lemma build_unknown_items: "(k, c) \<in> set (build_unknown cs) \<Longrightarrow> c \<in> set cs \<and> cid c = k"
proof (induction cs arbitrary: k c rule: rev_induct)
  case Nil
  then show ?case by (simp add: build_unknown_def)
next
  case (snoc x xs)
  from snoc.prems set_update_subset [of "cid x" x "build_unknown xs"]
  have "(k, c) = (cid x, x) \<or> (k, c) \<in> set (build_unknown xs)"
    by (auto simp: build_unknown_snoc dict_set_def)
  with snoc.IH show ?case by auto
qed

subsection \<open>The inventory and the plans of \<^verbatim>\<open>up\<close> and \<^verbatim>\<open>diff\<close>\<close>

lemma up_unknown_eval:
  assumes "project_containers env (world s) project None True False = Inr c1"
    and "project_containers env (world s) project None False True = Inr c2"
    and "get_services env (world s) project servicenames True = Inr services"
    and "get_convergence_plans env (world s) project services = Inr plans"
  shows "up_unknown env project servicenames s = (del_plans plans (build_unknown (c1 @ c2)), s)"
  using assms by (simp add: up_unknown_def bnd_def query_def lift_def)

lemma diff_plans_Inr:
  "del_plans plans d = Inr d' \<Longrightarrow>
     diff_plans plans d s = (Inr d', s\<lparr>out := out s @ map plan_line_of plans\<rparr>)"
proof (induction plans arbitrary: d s)
  case Nil
  then show ?case by (simp add: ret_def)
next
  case (Cons a plans)
  obtain service plan where a: "a = (service, plan)" by (cases a)
  from Cons.prems obtain d1 where
    d1: "del_keys (map cid (plan_containers plan)) d = Inr d1" and rest: "del_plans plans d1 = Inr d'"
    by (auto simp: a del_containers_keys split: sum.splits)
  show ?case
    using d1 Cons.IH [OF rest]
    by (simp add: a diff_containers_keys bnd_def lift_def print_def plan_line_of_def)
qed

lemma diff_plans_Inl:
  "del_plans plans d = Inl e \<Longrightarrow> fst (diff_plans plans d s) = Inl e"
proof (induction plans arbitrary: d s)
  case Nil
  then show ?case by simp
next
  case (Cons a plans)
  obtain service plan where a: "a = (service, plan)" by (cases a)
  show ?case
  proof (cases "del_keys (map cid (plan_containers plan)) d")
    case (Inl e')
    with Cons.prems show ?thesis
      by (simp add: a del_containers_keys diff_containers_keys bnd_def lift_def)
  next
    case (Inr d1)
    with Cons.prems have "del_plans plans d1 = Inl e"
      by (simp add: a del_containers_keys)
    from Cons.IH [OF this] Inr show ?thesis
      by (simp add: a diff_containers_keys bnd_def lift_def print_def)
  qed
qed

lemma diff_plans_result: "fst (diff_plans plans d s) = del_plans plans d"
  by (cases "del_plans plans d") (simp_all add: diff_plans_Inl diff_plans_Inr)

lemma diff_unknown_eval:
  assumes "project_containers env (world s) project None True False = Inr c1"
    and "project_containers env (world s) project None False True = Inr c2"
    and "get_services env (world s) project servicenames True = Inr services"
    and "get_convergence_plans env (world s) project services = Inr plans"
  shows "diff_unknown env project projectname servicenames s
           = diff_plans plans (build_unknown (c1 @ c2))
               (s\<lparr>out := out s @ [[], ''  '' @ projectname @ '' convergence plan:'', []]\<rparr>)"
  using assms by (simp add: diff_unknown_def bnd_def query_def print_def)

subsection \<open>Running the commands step by step\<close>

lemma main_KeyError:
  "fst (m s) = Inl (KeyError k) \<Longrightarrow> fst (main m s) = Inl (KeyError k)"
  using main_raise [of m s "KeyError k" "snd (m s)"]
  by (cases "m s") (simp add: top_level_message_def claimed_top_level_message_def)

lemma bnd_Inl: "fst (m s) = Inl e \<Longrightarrow> fst (bnd m f s) = Inl e"
  by (cases "m s") (simp add: bnd_def)

lemma bnd_Inr: "m s = (Inr x, s') \<Longrightarrow> bnd m f s = f x s'"
  by (simp add: bnd_def)

lemma for_each_print:
  "for_each xs (\<lambda>x. print (f x)) s = (Inr (), s\<lparr>out := out s @ map f xs\<rparr>)"
  by (induction xs arbitrary: s) (simp_all add: ret_def bnd_def print_def)

lemma ps_all_containers_keys:
  "map_sum id fst (ps_all_containers cs d counts) = del_keys (map cid cs) d"
  by (induction cs arbitrary: d counts) (auto split: sum.splits)

lemma ps_all_services_keys:
  assumes "\<forall>sv \<in> set services.
             service_containers env (world s) project sv True False = Inr (l1 sv)
           \<and> service_containers env (world s) project sv False True = Inr (l2 sv)"
  shows "map_sum id fst (fst (ps_all_services env project services d counts s))
           = del_keys (concat (map (\<lambda>sv. map cid (l1 sv @ l2 sv)) services)) d
       \<and> snd (ps_all_services env project services d counts s) = s"
  using assms
proof (induction services arbitrary: d counts)
  case Nil
  show ?case by (simp add: ret_def)
next
  case (Cons sv services)
  let ?cs = "l1 sv @ l2 sv"
  let ?counts = "if length ?cs = 0 then bump_count ''Uncreated'' counts else counts"
  from Cons.prems have q:
    "service_containers env (world s) project sv True False = Inr (l1 sv)"
    "service_containers env (world s) project sv False True = Inr (l2 sv)"
    by simp_all
  have step: "ps_all_services env project (sv # services) d counts s =
                bnd (lift (ps_all_containers ?cs d ?counts))
                  (\<lambda>(d', counts'). ps_all_services env project services d' counts') s"
    by (simp add: bnd_def query_def q)
  have keys: "map_sum id fst (ps_all_containers ?cs d ?counts) = del_keys (map cid ?cs) d"
    by (rule ps_all_containers_keys)
  have all: "del_keys (concat (map (\<lambda>sv. map cid (l1 sv @ l2 sv)) (sv # services))) d
               = (case del_keys (map cid ?cs) d of
                    Inl e \<Rightarrow> Inl e
                  | Inr d' \<Rightarrow> del_keys (concat (map (\<lambda>sv. map cid (l1 sv @ l2 sv)) services)) d')"
    by (simp only: list.map concat.simps del_keys_append)
  show ?case
  proof (cases "ps_all_containers ?cs d ?counts")
    case (Inl e)
    with keys have "del_keys (map cid ?cs) d = Inl e" by simp
    with Inl show ?thesis
      unfolding step all by (simp add: bnd_def lift_def)
  next
    case (Inr r)
    obtain d' counts' where r: "r = (d', counts')" by (cases r)
    from Inr keys r have dk: "del_keys (map cid ?cs) d = Inr d'" by simp
    from Cons.prems have "\<forall>sv \<in> set services.
             service_containers env (world s) project sv True False = Inr (l1 sv)
           \<and> service_containers env (world s) project sv False True = Inr (l2 sv)"
      by simp
    from Cons.IH [OF this, of d' counts'] Inr r dk show ?thesis
      unfolding step all by (simp add: bnd_def lift_def)
  qed
qed


lemma ps_all_projects_keys:
  assumes "\<forall>pn \<in> set pns.
             config_load env w (abspath env (pn @ ''.yml'')) = Inr (cfg pn)
           \<and> from_dicts env pn (cfg pn) = Inr (proj pn)
           \<and> get_services env w (proj pn) [] False = Inr (svcs pn)
           \<and> (\<forall>sv \<in> set (svcs pn).
                 service_containers env w (proj pn) sv True False = Inr (l1 pn sv)
               \<and> service_containers env w (proj pn) sv False True = Inr (l2 pn sv))"
    and "world s = w"
  shows "fst (ps_all_projects env pns d s) = del_keys (owned_ids svcs (\<lambda>pn sv. l1 pn sv @ l2 pn sv) pns) d
       \<and> world (snd (ps_all_projects env pns d s)) = w"
  using assms
proof (induction pns arbitrary: d s)
  case Nil
  then show ?case by (simp add: ret_def owned_ids_def)
next
  case (Cons pn pns)
  let ?ids = "concat (map (\<lambda>sv. map cid (l1 pn sv @ l2 pn sv)) (svcs pn))"
  let ?s1 = "s\<lparr>calls := calls s @ [ConfigLoad (abspath env (pn @ ''.yml''))]\<rparr>"
  from Cons.prems have q:
    "config_load env (world s) (abspath env (pn @ ''.yml'')) = Inr (cfg pn)"
    "from_dicts env pn (cfg pn) = Inr (proj pn)"
    "get_services env (world s) (proj pn) [] False = Inr (svcs pn)"
    and sq: "\<forall>sv \<in> set (svcs pn).
                 service_containers env (world ?s1) (proj pn) sv True False = Inr (l1 pn sv)
               \<and> service_containers env (world ?s1) (proj pn) sv False True = Inr (l2 pn sv)"
    by simp_all
  have step: "ps_all_projects env (pn # pns) d s =
                bnd (ps_all_services env (proj pn) (svcs pn) d []) (\<lambda>(d', counts).
                bnd (print (counts_line pn counts)) (\<lambda>u.
                ps_all_projects env pns d')) ?s1"
    by (simp add: bnd_def query_def lift_def get_config_def Let_def q)
  have all: "del_keys (owned_ids svcs (\<lambda>pn sv. l1 pn sv @ l2 pn sv) (pn # pns)) d
               = (case del_keys ?ids d of
                    Inl e \<Rightarrow> Inl e
                  | Inr d' \<Rightarrow> del_keys (owned_ids svcs (\<lambda>pn sv. l1 pn sv @ l2 pn sv) pns) d')"
    by (simp only: owned_ids_def list.map concat.simps del_keys_append)
  from ps_all_services_keys [OF sq, of d "[]"] have
    sk: "map_sum id fst (fst (ps_all_services env (proj pn) (svcs pn) d [] ?s1)) = del_keys ?ids d"
    and ss: "snd (ps_all_services env (proj pn) (svcs pn) d [] ?s1) = ?s1"
    by simp_all
  show ?case
  proof (cases "fst (ps_all_services env (proj pn) (svcs pn) d [] ?s1)")
    case (Inl e)
    with sk have "del_keys ?ids d = Inl e" by simp
    moreover from Inl ss have "ps_all_services env (proj pn) (svcs pn) d [] ?s1 = (Inl e, ?s1)"
      by (metis prod.collapse)
    ultimately show ?thesis
      unfolding step all using Cons.prems(2) by (simp add: bnd_def)
  next
    case (Inr r)
    obtain d' counts where r: "r = (d', counts)" by (cases r)
    from Inr sk r have dk: "del_keys ?ids d = Inr d'" by simp
    from Inr ss r have run: "ps_all_services env (proj pn) (svcs pn) d [] ?s1 = (Inr (d', counts), ?s1)"
      by (metis prod.collapse)
    let ?s2 = "?s1\<lparr>out := out ?s1 @ [counts_line pn counts]\<rparr>"
    from Cons.prems have rest: "\<forall>pn \<in> set pns.
             config_load env w (abspath env (pn @ ''.yml'')) = Inr (cfg pn)
           \<and> from_dicts env pn (cfg pn) = Inr (proj pn)
           \<and> get_services env w (proj pn) [] False = Inr (svcs pn)
           \<and> (\<forall>sv \<in> set (svcs pn).
                 service_containers env w (proj pn) sv True False = Inr (l1 pn sv)
               \<and> service_containers env w (proj pn) sv False True = Inr (l2 pn sv))"
      by simp
    have w2: "world ?s2 = w" using Cons.prems(2) by simp
    have "ps_all_projects env (pn # pns) d s = ps_all_projects env pns d' ?s2"
      unfolding step by (simp add: bnd_def run print_def)
    with Cons.IH [OF rest w2, of d'] dk show ?thesis
      unfolding all by simp
  qed
qed

lemma inspect_all_eval:
  assumes "\<forall>i \<in> set ids. inspect_container env (world s) i = Inr (det i)"
  shows "\<exists>d'. inspect_all env ids d s = (Inr d', s) \<and> fst ` set d' = fst ` set d \<union> set ids"
  using assms
proof (induction ids arbitrary: d)
  case Nil
  show ?case by (simp add: ret_def)
next
  case (Cons i ids)
  from Cons.prems have "inspect_container env (world s) i = Inr (det i)"
    and rest: "\<forall>i \<in> set ids. inspect_container env (world s) i = Inr (det i)"
    by simp_all
  then have "inspect_all env (i # ids) d s = inspect_all env ids (dict_set i (det i) d) s"
    by (simp add: bnd_def query_def)
  with Cons.IH [OF rest, of "dict_set i (det i) d"] show ?case
    by (auto simp: dict_set_def dom_update)
qed


lemma bnd_eval: "bnd m f s = (case m s of (Inl e, s') \<Rightarrow> (Inl e, s') | (Inr x, s') \<Rightarrow> f x s')"
  by (simp add: bnd_def)

lemma ret_eval: "ret x s = (Inr x, s)"
  by (simp add: ret_def)

lemma print_eval: "print x s = (Inr (), s\<lparr>out := out s @ [x]\<rparr>)"
  by (simp add: print_def)

lemma query_eval: "query q s = (q (world s), s)"
  by (simp add: query_def)

lemma lift_eval: "lift r s = (r, s)"
  by (simp add: lift_def)

lemma raise_eval: "raise e s = (Inl e, s)"
  by (simp add: raise_def)

lemma main_Inr: "fst (m s) = Inr u \<Longrightarrow> fst (main m s) = Inr u"
  by (cases "m s") (simp add: main_def)

lemma up_KeyError:
  assumes "fst (up_unknown env project servicenames s) = Inl e"
  shows "fst (up env project projectname servicenames s) = Inl e"
  unfolding up_def using assms by (rule bnd_Inl)

lemma fst_print: "fst (print x s) = Inr ()"
  by (simp add: print_def)

lemma diff_result:
  "fst (diff env project projectname servicenames s)
     = map_sum id (\<lambda>d. ()) (fst (diff_unknown env project projectname servicenames s))"
proof (cases "diff_unknown env project projectname servicenames s")
  case (Pair r s')
  show ?thesis
  proof (cases r)
    case (Inl e)
    with Pair show ?thesis by (simp add: diff_def bnd_def)
  next
    case (Inr d)
    with Pair show ?thesis
      by (simp add: diff_def bnd_def for_each_print fst_print)
  qed
qed

lemma ps_all_result:
  assumes cc: "client_containers env (world s) = Inr ids"
    and ins: "\<forall>i \<in> set ids. inspect_container env (world s) i = Inr (det i)"
    and prj: "\<forall>pn \<in> set (projectnames_in_dir (listdir env (world s))).
             config_load env (world s) (abspath env (pn @ ''.yml'')) = Inr (cfg pn)
           \<and> from_dicts env pn (cfg pn) = Inr (proj pn)
           \<and> get_services env (world s) (proj pn) [] False = Inr (svcs pn)
           \<and> (\<forall>sv \<in> set (svcs pn).
                 service_containers env (world s) (proj pn) sv True False = Inr (l1 pn sv)
               \<and> service_containers env (world s) (proj pn) sv False True = Inr (l2 pn sv))"
  shows "\<exists>d0 :: (string \<times> detail) list. fst ` set d0 = set ids
            \<and> fst (ps_all env s)
                = map_sum id (\<lambda>d. ())
                    (del_keys (owned_ids svcs (\<lambda>pn sv. l1 pn sv @ l2 pn sv)
                       (projectnames_in_dir (listdir env (world s)))) d0)"
proof -
  let ?pns = "projectnames_in_dir (listdir env (world s))"
  let ?owned = "owned_ids svcs (\<lambda>pn sv. l1 pn sv @ l2 pn sv) ?pns"
  from inspect_all_eval [OF ins, of "[]"] obtain d0 where
    d0: "inspect_all env ids [] s = (Inr d0, s)" and k0: "fst ` set d0 = set ids"
    by auto
  let ?s1 = "if length ?pns \<noteq> 0 then s\<lparr>out := out s @ [[]]\<rparr> else s"
  have w1: "world ?s1 = world s" by simp
  let ?tail = "\<lambda>unknown :: (string \<times> detail) list.
     bnd (if length unknown \<noteq> 0
          then bnd (print []) (\<lambda>u.
               bnd (print ''  Containers not tracked by compose/tugboat:'') (\<lambda>u.
               print []))
          else ret ()) (\<lambda>u.
     bnd (for_each (map snd unknown) (\<lambda>det. print (untracked_line det))) (\<lambda>u.
     print []))"
  have s1: "get_projectnames_in_dir env s = (Inr ?pns, s)"
    by (simp add: get_projectnames_in_dir_def projectnames_in_dir_def)
  have s2: "query (client_containers env) s = (Inr ids, s)"
    by (simp add: query_def cc)
  have s4: "(if length ?pns \<noteq> 0 then print [] else ret ()) s = (Inr (), ?s1)"
    by (simp add: print_def ret_def)
  have run: "ps_all env s = bnd (ps_all_projects env ?pns d0) ?tail ?s1"
    unfolding ps_all_def
    by (simp only: bnd_Inr [of "get_projectnames_in_dir env" s, OF s1]
          bnd_Inr [of "query (client_containers env)" s, OF s2]
          bnd_Inr [of "inspect_all env ids []" s, OF d0]
          bnd_Inr [of "if length ?pns \<noteq> 0 then print [] else ret ()" s, OF s4])
  from ps_all_projects_keys [OF prj w1, of d0] have
    pk: "fst (ps_all_projects env ?pns d0 ?s1) = del_keys ?owned d0"
    by simp
  have tail: "fst (?tail unknown s') = Inr ()" for unknown s'
    by (cases "unknown = []") (simp_all add: bnd_eval print_eval ret_eval for_each_print)
  have "fst (ps_all env s) = map_sum id (\<lambda>d. ()) (del_keys ?owned d0)"
  proof (cases "del_keys ?owned d0")
    case (Inl e)
    with pk have "fst (ps_all_projects env ?pns d0 ?s1) = Inl e" by simp
    from bnd_Inl [of "ps_all_projects env ?pns d0" ?s1 e ?tail, OF this] Inl
    show ?thesis unfolding run by simp
  next
    case (Inr d')
    with pk obtain s2 where r2: "ps_all_projects env ?pns d0 ?s1 = (Inr d', s2)"
      by (cases "ps_all_projects env ?pns d0 ?s1") simp
    have "fst (ps_all env s) = Inr ()"
      unfolding run bnd_Inr [of "ps_all_projects env ?pns d0" ?s1 d' s2 ?tail, OF r2]
      by (rule tail)
    with Inr show ?thesis by simp
  qed
  with k0 have "fst ` set d0 = set ids
      \<and> fst (ps_all env s) = map_sum id (\<lambda>d. ()) (del_keys ?owned d0)"
    by (rule conjI)
  then show ?thesis by (rule exI)
qed


subsection \<open>The status view only reads and prints\<close>

lemma quietD: "quiet m \<Longrightarrow> world (snd (m s)) = world s \<and> calls (snd (m s)) = calls s"
  by (simp add: quiet_def)

lemma quiet_ret: "quiet (ret x)"
  by (simp add: quiet_def ret_def)

lemma quiet_lift: "quiet (lift r)"
  by (simp add: quiet_def lift_def)

lemma quiet_query: "quiet (query q)"
  by (simp add: quiet_def query_def)

lemma quiet_print: "quiet (print x)"
  by (simp add: quiet_def print_def)

lemma quiet_bnd:
  assumes "quiet m" and "\<And>x. quiet (f x)"
  shows "quiet (bnd m f)"
  unfolding quiet_def
proof
  fix s
  obtain r s' where ms: "m s = (r, s')" by (cases "m s")
  with quietD [OF assms(1), of s] have s': "world s' = world s" "calls s' = calls s" by simp_all
  show "world (snd (bnd m f s)) = world s \<and> calls (snd (bnd m f s)) = calls s"
  proof (cases r)
    case (Inl e)
    with ms s' show ?thesis by (simp add: bnd_def)
  next
    case (Inr x)
    with ms s' quietD [OF assms(2), of x s'] show ?thesis by (simp add: bnd_def)
  qed
qed

lemma quiet_for_each: "(\<And>x. quiet (body x)) \<Longrightarrow> quiet (for_each xs body)"
  by (induction xs) (auto intro: quiet_ret quiet_bnd)

lemma quiet_if: "quiet a \<Longrightarrow> quiet b \<Longrightarrow> quiet (if c then a else b)"
  by simp

lemma quiet_ps: "quiet (ps env project projectname servicenames)"
  unfolding ps_def ps_service_def ps_container_def Let_def
  by (intro quiet_bnd quiet_print quiet_query quiet_for_each quiet_if quiet_ret)

lemma ps_container_print: "ps_container = (\<lambda>c. print (container_status_line c))"
  by (rule ext) (simp add: ps_container_def container_status_line_def Let_def)

lemma for_each_ps_container:
  "for_each cs ps_container s = (Inr (), s\<lparr>out := out s @ map container_status_line cs\<rparr>)"
  by (simp only: ps_container_print for_each_print)

lemma ps_service_eval:
  assumes "service_containers env (world s) project sv True False = Inr a"
    and "service_containers env (world s) project sv False True = Inr b"
  shows "ps_service env project sv s = (Inr (), s\<lparr>out := out s @ service_status_lines sv (a @ b)\<rparr>)"
proof (cases "a @ b = []")
  case True
  with assms show ?thesis
    by (simp add: ps_service_def bnd_eval query_eval print_eval ret_eval service_status_lines_def)
next
  case False
  with assms show ?thesis
    by (auto simp: ps_service_def bnd_eval query_eval ret_eval for_each_ps_container
          service_status_lines_def)
qed

lemma for_each_ps_service:
  assumes "\<forall>sv \<in> set services.
             service_containers env (world s) project sv True False = Inr (l1 sv)
           \<and> service_containers env (world s) project sv False True = Inr (l2 sv)"
  shows "for_each services (ps_service env project) s
           = (Inr (), s\<lparr>out := out s @ concat (map (\<lambda>sv. service_status_lines sv (l1 sv @ l2 sv)) services)\<rparr>)"
  using assms
proof (induction services arbitrary: s)
  case Nil
  show ?case by (simp add: ret_eval)
next
  case (Cons sv services)
  let ?s1 = "s\<lparr>out := out s @ service_status_lines sv (l1 sv @ l2 sv)\<rparr>"
  from Cons.prems have one: "ps_service env project sv s = (Inr (), ?s1)"
    by (simp add: ps_service_eval)
  from Cons.prems have "\<forall>sv \<in> set services.
             service_containers env (world ?s1) project sv True False = Inr (l1 sv)
           \<and> service_containers env (world ?s1) project sv False True = Inr (l2 sv)"
    by simp
  from Cons.IH [OF this] one show ?case
    by (simp add: bnd_eval)
qed

subsection \<open>The reclaimer, call by call\<close>

lemma do_call_Inr:
  "fst (f (world s) c) = Inr r \<Longrightarrow>
     do_call f c s = (Inr r, s\<lparr>world := snd (f (world s) c), calls := calls s @ [c]\<rparr>)"
  by (cases "f (world s) c") (simp add: do_call_def)

lemma do_call_Inl:
  "fst (f (world s) c) = Inl e \<Longrightarrow>
     do_call f c s = (Inl e, s\<lparr>world := snd (f (world s) c), calls := calls s @ [c]\<rparr>)"
  by (cases "f (world s) c") (simp add: do_call_def)

lemma except_ReadTimeout_tolerates:
  assumes "fst (f (world s) c) = Inl ReadTimeout \<or> (\<exists>r. fst (f (world s) c) = Inr r)"
  shows "except_ReadTimeout (do_call f c) s
           = (Inr (), s\<lparr>world := snd (f (world s) c), calls := calls s @ [c]\<rparr>)"
  using assms
  by (auto simp: except_ReadTimeout_def do_call_Inr do_call_Inl)

lemma reclaim_container_eval:
  assumes "reclaim_calls_succeed env"
  shows "\<exists>s'. reclaim_container env c s = (Inr (), s')
            \<and> calls s' = calls s @ reclaim_protocol c \<and> out s' = out s"
proof -
  let ?f = "engine_call env"
  have remove: "\<exists>s'. bnd (do_call ?f (Remove (cid c))) (\<lambda>r. ret ()) t = (Inr (), s')
                  \<and> calls s' = calls t @ [Remove (cid c)] \<and> out s' = out t" for t
  proof -
    from assms obtain r where "fst (?f (world t) (Remove (cid c))) = Inr r"
      unfolding reclaim_calls_succeed_def by blast
    from do_call_Inr [of ?f t "Remove (cid c)" r, OF this] show ?thesis
      by (simp add: bnd_eval ret_eval)
  qed
  show ?thesis
  proof (cases "is_running c")
    case False
    from remove [of s] False show ?thesis
      by (simp add: reclaim_container_def reclaim_protocol_def bnd_eval ret_eval)
  next
    case True
    let ?k = "Kill (cid c) ''SIGTERM''"
    let ?w = "Wait (cid c) 10"
    let ?st = "Stop (cid c)"
    let ?s1 = "s\<lparr>world := snd (?f (world s) ?k), calls := calls s @ [?k]\<rparr>"
    let ?s2 = "?s1\<lparr>world := snd (?f (world ?s1) ?w), calls := calls ?s1 @ [?w]\<rparr>"
    let ?s3 = "?s2\<lparr>world := snd (?f (world ?s2) ?st), calls := calls ?s2 @ [?st]\<rparr>"
    let ?s4 = "?s3\<lparr>world := snd (?f (world ?s3) ?w), calls := calls ?s3 @ [?w]\<rparr>"
    from assms obtain r1 where "fst (?f (world s) ?k) = Inr r1"
      unfolding reclaim_calls_succeed_def by blast
    from do_call_Inr [of ?f s ?k r1, OF this]
    have k: "do_call ?f ?k s = (Inr r1, ?s1)" .
    from assms have "fst (?f (world ?s1) ?w) = Inl ReadTimeout \<or> (\<exists>r. fst (?f (world ?s1) ?w) = Inr r)"
      unfolding reclaim_calls_succeed_def by blast
    from except_ReadTimeout_tolerates [of ?f ?s1 ?w, OF this]
    have w1: "except_ReadTimeout (do_call ?f ?w) ?s1 = (Inr (), ?s2)" .
    from assms obtain r3 where "fst (?f (world ?s2) ?st) = Inr r3"
      unfolding reclaim_calls_succeed_def by blast
    from do_call_Inr [of ?f ?s2 ?st r3, OF this]
    have st: "do_call ?f ?st ?s2 = (Inr r3, ?s3)" .
    from assms have "fst (?f (world ?s3) ?w) = Inl ReadTimeout \<or> (\<exists>r. fst (?f (world ?s3) ?w) = Inr r)"
      unfolding reclaim_calls_succeed_def by blast
    from except_ReadTimeout_tolerates [of ?f ?s3 ?w, OF this]
    have w2: "except_ReadTimeout (do_call ?f ?w) ?s3 = (Inr (), ?s4)" .
    let ?A = "bnd (do_call ?f ?k) (\<lambda>r.
              bnd (except_ReadTimeout (do_call ?f ?w)) (\<lambda>u.
              bnd (do_call ?f ?st) (\<lambda>r.
              except_ReadTimeout (do_call ?f ?w))))"
    have A: "?A s = (Inr (), ?s4)"
      by (simp only: bnd_Inr [of "do_call ?f ?k" s, OF k]
            bnd_Inr [of "except_ReadTimeout (do_call ?f ?w)" ?s1, OF w1]
            bnd_Inr [of "do_call ?f ?st" ?s2, OF st] w2)
    have "reclaim_container env c s = bnd (do_call ?f (Remove (cid c))) (\<lambda>r. ret ()) ?s4"
      unfolding reclaim_container_def
      by (simp only: True if_True bnd_Inr [of ?A s, OF A])
    with remove [of ?s4] True show ?thesis
      by (auto simp: reclaim_protocol_def)
  qed
qed

lemma reclaim_all_eval:
  assumes "reclaim_calls_succeed env"
  shows "\<exists>s'. for_each cs (reclaim_container env) s = (Inr (), s')
            \<and> calls s' = calls s @ concat (map reclaim_protocol cs) \<and> out s' = out s"
proof (induction cs arbitrary: s)
  case Nil
  show ?case by (simp add: ret_eval)
next
  case (Cons c cs)
  from reclaim_container_eval [OF assms, of c s] obtain s1 where
    one: "reclaim_container env c s = (Inr (), s1)"
    and c1: "calls s1 = calls s @ reclaim_protocol c" and o1: "out s1 = out s"
    by blast
  from Cons.IH [of s1] obtain s2 where
    rest: "for_each cs (reclaim_container env) s1 = (Inr (), s2)"
    and c2: "calls s2 = calls s1 @ concat (map reclaim_protocol cs)" and o2: "out s2 = out s1"
    by blast
  have "for_each (c # cs) (reclaim_container env) s = (Inr (), s2)"
    by (simp add: bnd_eval one rest)
  with c1 c2 o1 o2 show ?case by simp
qed

lemma count_remove_protocol:
  "count_list (reclaim_protocol c) (Remove i) = (if cid c = i then 1 else 0)"
  by (simp add: reclaim_protocol_def)

lemma count_remove_all:
  "distinct (map cid cs) \<Longrightarrow> c \<in> set cs \<Longrightarrow>
     count_list (concat (map reclaim_protocol cs)) (Remove (cid c)) = 1"
proof (induction cs)
  case Nil
  then show ?case by simp
next
  case (Cons x xs)
  have absent: "count_list (concat (map reclaim_protocol ys)) (Remove i) = 0"
    if "i \<notin> cid ` set ys" for ys i
    using that by (induction ys) (auto simp: count_remove_protocol)
  show ?case
  proof (cases "c = x")
    case True
    with Cons.prems absent [of "cid x" xs] show ?thesis
      by (simp add: count_remove_protocol)
  next
    case False
    with Cons.prems have "c \<in> set xs" and "cid x \<noteq> cid c" and "distinct (map cid xs)"
      by auto
    with Cons.IH show ?thesis
      by (simp add: count_remove_protocol)
  qed
qed

lemma up_unknown_state: "snd (up_unknown env project servicenames s) = s"
  by (simp add: up_unknown_def bnd_eval query_eval lift_eval split: sum.splits)

lemma up_unknown_Inr:
  assumes "fst (up_unknown env project servicenames s) = Inr unknown"
  shows "\<exists>c1 c2 plans.
           project_containers env (world s) project None True False = Inr c1
         \<and> project_containers env (world s) project None False True = Inr c2
         \<and> unknown = filter (\<lambda>kv. fst kv \<notin> set (plan_container_ids plans)) (build_unknown (c1 @ c2))"
proof -
  from assms obtain c1 c2 services plans where
    "project_containers env (world s) project None True False = Inr c1"
    "project_containers env (world s) project None False True = Inr c2"
    "del_plans plans (build_unknown (c1 @ c2)) = Inr unknown"
    by (auto simp: up_unknown_def bnd_eval query_eval lift_eval split: sum.splits)
  then show ?thesis
    by (auto simp: del_plans_keys del_keys_Inr_iff)
qed

lemma unknown_items:
  assumes "unknown = filter (\<lambda>kv. fst kv \<notin> set ids) (build_unknown cs)"
  shows "distinct (map fst unknown)"
    and "(k, c) \<in> set unknown \<Longrightarrow> c \<in> set cs \<and> cid c = k"
proof -
  show "distinct (map fst unknown)"
    unfolding assms using build_unknown_distinct [of cs] by (simp add: distinct_map_filter)
  show "c \<in> set cs \<and> cid c = k" if "(k, c) \<in> set unknown"
    using that build_unknown_items [of k c cs] by (simp add: assms)
qed

lemma up_eval:
  assumes "fst (up_unknown env project servicenames s) = Inr unknown"
  shows "up env project projectname servicenames s
           = bnd (do_call (\<lambda>w. project_call env w project) (ProjectUp servicenames True)) (\<lambda>r.
             bnd (reclaim env servicenames unknown) (\<lambda>u.
             ps env project projectname servicenames)) s"
proof -
  from assms up_unknown_state [of env project servicenames s]
  have "up_unknown env project servicenames s = (Inr unknown, s)"
    by (cases "up_unknown env project servicenames s") simp
  from bnd_Inr [of "up_unknown env project servicenames" s unknown s, OF this]
  show ?thesis
    unfolding up_def .
qed

lemma up_failed_unknown:
  assumes "fst (up_unknown env project servicenames s) = Inl e"
  shows "up env project projectname servicenames s = (Inl e, s)"
proof -
  from assms up_unknown_state [of env project servicenames s]
  have "up_unknown env project servicenames s = (Inl e, s)"
    by (cases "up_unknown env project servicenames s") simp
  then show ?thesis
    by (simp add: up_def bnd_eval)
qed


lemma emits_mono: "emits P m \<Longrightarrow> (\<And>c. P c \<Longrightarrow> Q c) \<Longrightarrow> emits Q m"
  unfolding emits_def by (metis (mono_tags, lifting) list_all_iff)

lemma emits_for_each_set:
  "(\<And>x. x \<in> set xs \<Longrightarrow> emits P (body x)) \<Longrightarrow> emits P (for_each xs body)"
  by (induction xs) (auto intro: emits_ret emits_bnd)

lemma emits_reclaim_container_target:
  "emits (\<lambda>c'. call_target c' = Some (cid c)) (reclaim_container env c)"
  unfolding reclaim_container_def
  by (intro emits_bnd emits_if emits_except emits_do_call emits_ret) simp_all

lemma emits_reclaim_targets:
  assumes "\<And>k c. (k, c) \<in> set unknown \<Longrightarrow> Q (cid c)"
  shows "emits (\<lambda>c'. \<exists>i. call_target c' = Some i \<and> Q i) (reclaim env servicenames unknown)"
proof -
  have "emits (\<lambda>c'. \<exists>i. call_target c' = Some i \<and> Q i) (reclaim_container env c)"
    if "c \<in> set (map snd unknown)" for c
  proof -
    from that assms have "Q (cid c)" by auto
    with emits_mono [OF emits_reclaim_container_target [of c env]] show ?thesis by simp
  qed
  then show ?thesis
    unfolding reclaim_def
    by (intro emits_if emits_for_each_set emits_ret)
qed

lemma up_after_plan_application:
  assumes u: "fst (up_unknown env project servicenames s) = Inr unknown"
    and e: "emits P (reclaim env servicenames unknown)"
  shows "\<exists>rest. new_calls s (snd (up env project projectname servicenames s))
                  = ProjectUp servicenames True # rest \<and> list_all P rest"
proof -
  let ?c = "ProjectUp servicenames True"
  let ?f = "\<lambda>w. project_call env w project"
  let ?s1 = "s\<lparr>world := snd (?f (world s) ?c), calls := calls s @ [?c]\<rparr>"
  let ?k = "\<lambda>r :: int. bnd (reclaim env servicenames unknown) (\<lambda>u.
             ps env project projectname servicenames)"
  note up = up_eval [OF u, of projectname]
  show ?thesis
  proof (cases "fst (?f (world s) ?c)")
    case (Inl x)
    from do_call_Inl [of ?f s ?c x, OF Inl]
    have "up env project projectname servicenames s = (Inl x, ?s1)"
      unfolding up by (simp add: bnd_eval)
    then show ?thesis by (simp add: new_calls_def)
  next
    case (Inr r)
    from do_call_Inr [of ?f s ?c r, OF Inr]
    have run: "up env project projectname servicenames s = ?k r ?s1"
      unfolding up by (simp add: bnd_eval)
    have "emits P (?k r)"
      by (intro emits_bnd e emits_ps)
    from emitsD [OF this, of ?s1] obtain new where
      "calls (snd (?k r ?s1)) = calls ?s1 @ new" and "list_all P new"
      by blast
    then show ?thesis
      unfolding run by (simp add: new_calls_def)
  qed
qed

subsection \<open>What \<^verbatim>\<open>diff\<close> prints\<close>





subsection \<open>The sample environment, evaluated\<close>

lemma demo_queries:
  "project_containers demo_env (world demo_state) ''web'' None True False = Inr [app1, old1, old2]"
  "project_containers demo_env (world demo_state) ''web'' None False True = Inr []"
  "get_services demo_env (world demo_state) ''web'' [] True = Inr [''app'', ''db'']"
  "get_convergence_plans demo_env (world demo_state) ''web'' [''app'', ''db'']
     = Inr (map (demo_plan [app1, old1, old2]) [''app'', ''db''])"
  by (simp_all add: demo_env_def demo_state_def)

lemma demo_up_unknown:
  "fst (up_unknown demo_env ''web'' [] demo_state) = Inr [(''o1'', old1), (''o2'', old2)]"
  by code_simp

lemma dup_queries:
  "project_containers dup_env (world demo_state) ''web'' None True False = Inr [app1, old1, old2]
    \<and> project_containers dup_env (world demo_state) ''web'' None False True = Inr []
    \<and> get_services dup_env (world demo_state) ''web'' [] True = Inr [''app'', ''db'']
    \<and> get_convergence_plans dup_env (world demo_state) ''web'' [''app'', ''db'']
        = Inr [(''app'', \<lparr>plan_action = ''noop'', plan_containers = [app1]\<rparr>),
               (''db'', \<lparr>plan_action = ''noop'', plan_containers = [app1]\<rparr>)]"
  by (simp add: dup_env_def demo_env_def demo_state_def)

lemma demo_projectnames: "projectnames_in_dir (listdir dup_env (world demo_state)) = [''web'']"
  by (simp add: dup_env_def demo_env_def projectnames_in_dir_def endswith_def
        clean_project_name_def drop_last_def)

lemma dup_ps_queries:
  "client_containers dup_env (world demo_state) = Inr [''a1'', ''o1'', ''o2'']
    \<and> (\<forall>i \<in> set [''a1'', ''o1'', ''o2''].
          inspect_container dup_env (world demo_state) i
            = Inr ((\<lambda>i. if i = ''a1'' then \<lparr>detail_name = ''/web_app_1'', detail_ip = ''172.17.0.2''\<rparr>
                        else if i = ''o1'' then \<lparr>detail_name = ''/web_old_1'', detail_ip = []\<rparr>
                        else \<lparr>detail_name = ''/web_old_2'', detail_ip = []\<rparr>) i))
    \<and> (\<forall>pn \<in> set (projectnames_in_dir (listdir dup_env (world demo_state))).
             config_load dup_env (world demo_state) (abspath dup_env (pn @ ''.yml'')) = Inr ((\<lambda>pn. ()) pn)
           \<and> from_dicts dup_env pn ((\<lambda>pn. ()) pn) = Inr ((\<lambda>pn. pn) pn)
           \<and> get_services dup_env (world demo_state) ((\<lambda>pn. pn) pn) [] False
               = Inr ((\<lambda>pn. [''app'', ''db'']) pn)
           \<and> (\<forall>sv \<in> set ((\<lambda>pn. [''app'', ''db'']) pn).
                 service_containers dup_env (world demo_state) ((\<lambda>pn. pn) pn) sv True False
                   = Inr ((\<lambda>pn sv. [app1]) pn sv)
               \<and> service_containers dup_env (world demo_state) ((\<lambda>pn. pn) pn) sv False True
                   = Inr ((\<lambda>pn sv. []) pn sv)))"
  unfolding demo_projectnames
  by (simp add: dup_env_def demo_env_def demo_state_def app1_def old1_def old2_def)

lemma demo_ps_queries:
  "get_services demo_env (world demo_state) ''web'' [] False = Inr [''app'', ''db'']
      \<and> (\<forall>sv \<in> set [''app'', ''db''].
             service_containers demo_env (world demo_state) ''web'' sv True False
               = Inr ((\<lambda>sv. of_service sv [app1, old1, old2]) sv)
           \<and> service_containers demo_env (world demo_state) ''web'' sv False True
               = Inr ((\<lambda>sv. []) sv))"
  by (simp add: demo_env_def demo_state_def)

lemma demo_status_lines:
  "concat (map (\<lambda>sv. service_status_lines sv (of_service sv [app1, old1, old2] @ []))
             [''app'', ''db''])
     = [''  app_1                   Up          172.17.0.2       '',
        ''  db                      Uncreated                    '']"
  by code_simp

lemma demo_host_line:
  "''  '' @ ljust 24 (name_without_project old1) @ ljust 12 (human_readable_state old1)
             @ ''(host)           ''
     = ''  old_1                   Up          (host)           ''"
  by code_simp

lemma demo_reclaim_calls_succeed: "reclaim_calls_succeed demo_env"
  by (simp add: reclaim_calls_succeed_def demo_env_def demo_engine_call_def)

lemma demo_project_up:
  "fst (project_call demo_env (world demo_state) ''web'' (ProjectUp [] True)) = Inr 0"
  by (simp add: demo_env_def demo_project_call_def)

lemma demo_protocol:
  "concat (map reclaim_protocol (map snd [(''o1'', old1), (''o2'', old2)]))
     = [Kill ''o1'' ''SIGTERM'', Wait ''o1'' 10, Stop ''o1'', Wait ''o1'' 10, Remove ''o1'',
        Remove ''o2'']"
  by (simp add: reclaim_protocol_def old1_def old2_def)

lemma demo_wait_times_out:
  "fst (engine_call demo_env w (Wait ''o1'' 10)) = Inl ReadTimeout"
  by (simp add: demo_env_def demo_engine_call_def)

lemma demo_up_world: "world (snd (up demo_env ''web'' ''web'' [] demo_state)) = [app1, db1]"
  by code_simp

lemma demo_up_scoped_world:
  "world (snd (up demo_env ''web'' ''web'' [''app''] demo_state)) = [app1, old1, old2, db1]"
  by code_simp

lemma demo_up_scoped_calls:
  "new_calls demo_state (snd (up demo_env ''web'' ''web'' [''app''] demo_state))
     = [ProjectUp [''app''] True]"
  by code_simp




lemma demo_exec_dispatch:
  "Usage demo_env (Inr (demo_options ''_exec'' ''web'')) demo_state
     = (Inl (SystemExit (Code 0)),
        demo_state\<lparr>out := [[], ''  docker exec -it <Project web>_web_1 /bin/bash'', []],
                    calls := [ConfigLoad ''/srv/web.yml'',
                              SubprocessCall [''docker'', ''exec'', ''-it'',
                                ''<Project web>_web_1'', ''/bin/bash'']]\<rparr>)"
  by code_simp

section \<open>The claims\<close>

subsection \<open>C1: graceful, then forceful, then removed\<close>

text \<open>
  C1. In \<^verbatim>\<open>up\<close> with no service names, when the orphans have been computed, plan
  application has returned and the engine does not fail the reclaimer (a wait may time
  out), the calls of \<^verbatim>\<open>up\<close> after plan application are, for each orphan in turn: SIGTERM,
  a wait of up to 10 seconds, a stop (issued whether or not the wait timed out), a second
  wait of up to 10 seconds and the removal when the orphan was running, and the removal
  alone when it was stopped. Every orphan is stored under its own id and is removed
  exactly once.
\<close>

theorem up_reclaims_every_orphan:
  assumes "reclaim_calls_succeed env"
    and "fst (up_unknown env project [] s) = Inr unknown"
    and "fst (project_call env (world s) project (ProjectUp [] True)) = Inr r"
  shows "new_calls s (snd (up env project projectname [] s))
           = ProjectUp [] True # concat (map reclaim_protocol (map snd unknown))
       \<and> (\<forall>(i, c) \<in> set unknown.
             cid c = i
           \<and> count_list (new_calls s (snd (up env project projectname [] s))) (Remove i) = 1)"
proof -
  let ?c = "ProjectUp [] True"
  let ?f = "\<lambda>w. project_call env w project"
  let ?s1 = "s\<lparr>world := snd (?f (world s) ?c), calls := calls s @ [?c]\<rparr>"
  let ?cs = "map snd unknown"
  note up = up_eval [OF assms(2), of projectname]
  from reclaim_all_eval [OF assms(1), of ?cs ?s1] obtain s2 where
    loop: "for_each ?cs (reclaim_container env) ?s1 = (Inr (), s2)"
    and c2: "calls s2 = calls ?s1 @ concat (map reclaim_protocol ?cs)"
    by blast
  have rc: "reclaim env [] unknown = for_each ?cs (reclaim_container env)"
    by (simp add: reclaim_def)
  from do_call_Inr [of ?f s ?c r, OF assms(3)]
  have "up env project projectname [] s = ps env project projectname [] s2"
    unfolding up rc by (simp add: bnd_eval loop)
  with quietD [OF quiet_ps, of env project projectname "[]" s2] c2
  have trace: "new_calls s (snd (up env project projectname [] s))
                 = ?c # concat (map reclaim_protocol ?cs)"
    by (simp add: new_calls_def)
  from up_unknown_Inr [OF assms(2)] obtain c1 c2 plans where
    unk: "unknown = filter (\<lambda>kv. fst kv \<notin> set (plan_container_ids plans)) (build_unknown (c1 @ c2))"
    by blast
  have key: "cid c = i" if "(i, c) \<in> set unknown" for i c
    using unknown_items(2) [OF unk that] by simp
  have "cid (snd kv) = fst kv" if "kv \<in> set unknown" for kv
    using key [of "fst kv" "snd kv"] that by simp
  then have eq: "map cid ?cs = map fst unknown"
    by simp
  have dist: "distinct (map cid ?cs)"
    unfolding eq by (rule unknown_items(1) [OF unk])
  have "cid c = i \<and> count_list (new_calls s (snd (up env project projectname [] s))) (Remove i) = 1"
    if "(i, c) \<in> set unknown" for i c
  proof -
    from that have "c \<in> set ?cs" by force
    from count_remove_all [OF dist this] key [OF that] show ?thesis
      unfolding trace by simp
  qed
  with trace show ?thesis by blast
qed

text \<open>
  An instance: of the two orphans of the sample project the running one does not exit
  within the grace period (its waits time out) and is stopped and removed, the stopped one
  is removed.
\<close>

theorem up_reclaims_every_orphan_witness:
  "new_calls demo_state (snd (up demo_env ''web'' ''web'' [] demo_state))
     = [ProjectUp [] True,
        Kill ''o1'' ''SIGTERM'', Wait ''o1'' 10, Stop ''o1'', Wait ''o1'' 10, Remove ''o1'',
        Remove ''o2'']
   \<and> fst (engine_call demo_env [app1, old1, old2, db1] (Wait ''o1'' 10)) = Inl ReadTimeout
   \<and> count_list (new_calls demo_state (snd (up demo_env ''web'' ''web'' [] demo_state)))
        (Remove ''o1'') = 1
   \<and> count_list (new_calls demo_state (snd (up demo_env ''web'' ''web'' [] demo_state)))
        (Remove ''o2'') = 1"
proof -
  note t = up_reclaims_every_orphan
    [OF demo_reclaim_calls_succeed demo_up_unknown demo_project_up, of "''web''"]
  from t have a: "new_calls demo_state (snd (up demo_env ''web'' ''web'' [] demo_state))
     = [ProjectUp [] True,
        Kill ''o1'' ''SIGTERM'', Wait ''o1'' 10, Stop ''o1'', Wait ''o1'' 10, Remove ''o1'',
        Remove ''o2'']"
    unfolding demo_protocol by simp
  note u = t [THEN conjunct2, THEN bspec]
  from u [of "(''o1'', old1)"]
  have b: "count_list (new_calls demo_state (snd (up demo_env ''web'' ''web'' [] demo_state)))
        (Remove ''o1'') = 1"
    by simp
  from u [of "(''o2'', old2)"]
  have c: "count_list (new_calls demo_state (snd (up demo_env ''web'' ''web'' [] demo_state)))
        (Remove ''o2'') = 1"
    by simp
  from a demo_wait_times_out [of "[app1, old1, old2, db1]"] b c show ?thesis
    by (intro conjI)
qed

subsection \<open>C2: the orphans and the plans partition the inventory\<close>

text \<open>
  C2. When the inventory and the plans have been obtained, \<^verbatim>\<open>diff\<close> and \<^verbatim>\<open>up\<close> compute the
  same set of unknown containers (or fail alike). Whenever it is computed, the set of its
  ids is disjoint from the ids of the containers of all plans, together with them it is
  exactly the set of ids of the inventory listed at the start of the command (stopped and
  one-off containers included), and every unknown container is a container of that
  inventory stored under its own id.
\<close>

theorem orphans_partition_inventory:
  assumes "project_containers env (world s) project None True False = Inr c1"
    and "project_containers env (world s) project None False True = Inr c2"
    and "get_services env (world s) project servicenames True = Inr services"
    and "get_convergence_plans env (world s) project services = Inr plans"
  shows "fst (diff_unknown env project projectname servicenames s)
           = fst (up_unknown env project servicenames s)
       \<and> (\<forall>unknown. fst (up_unknown env project servicenames s) = Inr unknown \<longrightarrow>
             fst ` set unknown \<inter> set (plan_container_ids plans) = {}
           \<and> fst ` set unknown \<union> set (plan_container_ids plans) = cid ` set (c1 @ c2)
           \<and> (\<forall>(k, c) \<in> set unknown. c \<in> set (c1 @ c2) \<and> cid c = k))"
proof -
  let ?d = "build_unknown (c1 @ c2)"
  have up: "fst (up_unknown env project servicenames s) = del_keys (plan_container_ids plans) ?d"
    by (simp add: up_unknown_eval [OF assms] del_plans_keys)
  have "fst (diff_unknown env project projectname servicenames s) = del_plans plans ?d"
    by (simp add: diff_unknown_eval [OF assms] diff_plans_result)
  then have same: "fst (diff_unknown env project projectname servicenames s)
                     = fst (up_unknown env project servicenames s)"
    by (simp add: up del_plans_keys)
  have "fst ` set unknown \<inter> set (plan_container_ids plans) = {}
      \<and> fst ` set unknown \<union> set (plan_container_ids plans) = cid ` set (c1 @ c2)
      \<and> (\<forall>(k, c) \<in> set unknown. c \<in> set (c1 @ c2) \<and> cid c = k)"
    if "fst (up_unknown env project servicenames s) = Inr unknown" for unknown
  proof -
    from that up have "del_keys (plan_container_ids plans) ?d = Inr unknown" by simp
    then have sub: "set (plan_container_ids plans) \<subseteq> fst ` set ?d"
      and unk: "unknown = filter (\<lambda>kv. fst kv \<notin> set (plan_container_ids plans)) ?d"
      by (simp_all add: del_keys_Inr_iff)
    have keys: "fst ` set unknown = cid ` set (c1 @ c2) - set (plan_container_ids plans)"
      unfolding unk build_unknown_keys [symmetric] by auto
    have sub': "set (plan_container_ids plans) \<subseteq> cid ` set (c1 @ c2)"
      using sub by (simp only: build_unknown_keys)
    have disj: "fst ` set unknown \<inter> set (plan_container_ids plans) = {}"
      unfolding keys by blast
    have un: "fst ` set unknown \<union> set (plan_container_ids plans) = cid ` set (c1 @ c2)"
      unfolding keys using sub' by blast
    have "kc \<in> set ?d" if "kc \<in> set unknown" for kc
      using that by (simp add: unk)
    then have items: "\<forall>(k, c) \<in> set unknown. c \<in> set (c1 @ c2) \<and> cid c = k"
      using build_unknown_items [of _ _ "c1 @ c2"] by fast
    from disj un items show ?thesis by (intro conjI)
  qed
  with same show ?thesis by blast
qed


text \<open>
  An instance: in the sample project the plans refer to \<^verbatim>\<open>a1\<close>, the orphans are \<^verbatim>\<open>o1\<close> and
  \<^verbatim>\<open>o2\<close>, and the inventory is the three of them.
\<close>

theorem orphans_partition_inventory_witness:
  "fst (diff_unknown demo_env ''web'' ''web'' [] demo_state) = Inr [(''o1'', old1), (''o2'', old2)]
   \<and> fst ` set [(''o1'', old1), (''o2'', old2)]
         \<inter> set (plan_container_ids (map (demo_plan [app1, old1, old2]) [''app'', ''db''])) = {}
   \<and> fst ` set [(''o1'', old1), (''o2'', old2)]
         \<union> set (plan_container_ids (map (demo_plan [app1, old1, old2]) [''app'', ''db'']))
       = cid ` set ([app1, old1, old2] @ [])"
  using orphans_partition_inventory [OF demo_queries, of "''web''"] demo_up_unknown
  by simp

subsection \<open>C3: the orphans are fixed before the plans are applied\<close>

text \<open>
  C3. In \<^verbatim>\<open>up\<close> the unknown containers are computed in the state the command started in.
  If that computation fails, \<^verbatim>\<open>up\<close> makes no call at all. Otherwise its first call is plan
  application, and every later call is a call on a container whose id is a key of the
  unknown dictionary computed before, hence an id of the inventory listed before plan
  application; a container that plan application creates under a new id is never acted on.
\<close>

theorem up_orphans_fixed_before_plan_application:
  assumes "project_containers env (world s) project None True False = Inr c1"
    and "project_containers env (world s) project None False True = Inr c2"
  shows "(\<forall>e. fst (up_unknown env project servicenames s) = Inl e \<longrightarrow>
            new_calls s (snd (up env project projectname servicenames s)) = [])
       \<and> (\<forall>unknown. fst (up_unknown env project servicenames s) = Inr unknown \<longrightarrow>
            (\<exists>rest. new_calls s (snd (up env project projectname servicenames s))
                       = ProjectUp servicenames True # rest
                  \<and> (\<forall>c \<in> set rest. \<exists>i. call_target c = Some i
                         \<and> i \<in> fst ` set unknown \<and> i \<in> cid ` set (c1 @ c2))))"
proof (intro conjI allI impI)
  fix e
  assume "fst (up_unknown env project servicenames s) = Inl e"
  from up_failed_unknown [OF this]
  show "new_calls s (snd (up env project projectname servicenames s)) = []"
    by (simp add: new_calls_def)
next
  fix unknown
  assume u: "fst (up_unknown env project servicenames s) = Inr unknown"
  from up_unknown_Inr [OF u] assms obtain plans where
    unk: "unknown = filter (\<lambda>kv. fst kv \<notin> set (plan_container_ids plans)) (build_unknown (c1 @ c2))"
    by auto
  let ?Q = "\<lambda>i. i \<in> fst ` set unknown \<and> i \<in> cid ` set (c1 @ c2)"
  have "?Q (cid c)" if "(k, c) \<in> set unknown" for k c
  proof -
    from unknown_items(2) [OF unk that] have "c \<in> set (c1 @ c2)" and "cid c = k" by simp_all
    with that show ?thesis by force
  qed
  then have "emits (\<lambda>c'. \<exists>i. call_target c' = Some i \<and> ?Q i) (reclaim env servicenames unknown)"
    by (rule emits_reclaim_targets)
  from up_after_plan_application [OF u this, of projectname]
  show "\<exists>rest. new_calls s (snd (up env project projectname servicenames s))
                       = ProjectUp servicenames True # rest
                  \<and> (\<forall>c \<in> set rest. \<exists>i. call_target c = Some i
                         \<and> i \<in> fst ` set unknown \<and> i \<in> cid ` set (c1 @ c2))"
    by (simp add: list_all_iff)
qed

text \<open>
  An instance: plan application creates \<^verbatim>\<open>web_db_1\<close> (id \<^verbatim>\<open>d1\<close>); the reclaimer acts on
  \<^verbatim>\<open>o1\<close> and \<^verbatim>\<open>o2\<close> only, and \<^verbatim>\<open>web_db_1\<close> is still there afterwards.
\<close>

theorem up_orphans_fixed_before_plan_application_witness:
  "(\<exists>rest. new_calls demo_state (snd (up demo_env ''web'' ''web'' [] demo_state))
             = ProjectUp [] True # rest
         \<and> list_all (\<lambda>c. \<exists>i. call_target c = Some i
                \<and> i \<in> fst ` set [(''o1'', old1), (''o2'', old2)]
                \<and> i \<in> cid ` set ([app1, old1, old2] @ [])) rest)
   \<and> world (snd (up demo_env ''web'' ''web'' [] demo_state)) = [app1, db1]
   \<and> cid db1 \<notin> cid ` set ([app1, old1, old2] @ [])"
proof -
  note t = up_orphans_fixed_before_plan_application
    [OF demo_queries(1) demo_queries(2), of "[]" "''web''",
      THEN conjunct2, rule_format, OF demo_up_unknown]
  from t have "\<exists>rest. new_calls demo_state (snd (up demo_env ''web'' ''web'' [] demo_state))
             = ProjectUp [] True # rest
         \<and> list_all (\<lambda>c. \<exists>i. call_target c = Some i
                \<and> i \<in> fst ` set [(''o1'', old1), (''o2'', old2)]
                \<and> i \<in> cid ` set ([app1, old1, old2] @ [])) rest"
    by (simp only: list_all_iff)
  moreover have "cid db1 \<notin> cid ` set ([app1, old1, old2] @ [])"
    by (simp add: app1_def old1_def old2_def db1_def)
  ultimately show ?thesis
    using demo_up_world by (intro conjI)
qed

subsection \<open>C4: no reclaim when services are named\<close>

text \<open>
  C4. When service names are given, the only call \<^verbatim>\<open>up\<close> makes is plan application (or
  none, when computing the plans failed): no kill, wait, stop or remove on any container,
  and the world is the one plan application left behind.
\<close>

theorem up_scoped_leaves_orphans:
  assumes "servicenames \<noteq> []"
  shows "(new_calls s (snd (up env project projectname servicenames s)) = []
          \<and> world (snd (up env project projectname servicenames s)) = world s
        \<or> new_calls s (snd (up env project projectname servicenames s))
             = [ProjectUp servicenames True]
          \<and> world (snd (up env project projectname servicenames s))
             = snd (project_call env (world s) project (ProjectUp servicenames True)))
       \<and> list_all (\<lambda>c. \<not> is_container_call c)
            (new_calls s (snd (up env project projectname servicenames s)))"
proof -
  let ?c = "ProjectUp servicenames True"
  let ?f = "\<lambda>w. project_call env w project"
  let ?s1 = "s\<lparr>world := snd (?f (world s) ?c), calls := calls s @ [?c]\<rparr>"
  let ?up = "up env project projectname servicenames s"
  have "new_calls s (snd ?up) = [] \<and> world (snd ?up) = world s
      \<or> new_calls s (snd ?up) = [?c] \<and> world (snd ?up) = snd (?f (world s) ?c)"
  proof (cases "fst (up_unknown env project servicenames s)")
    case (Inl e)
    from up_failed_unknown [OF this, of projectname] show ?thesis
      by (simp add: new_calls_def)
  next
    case (Inr unknown)
    note up = up_eval [OF Inr, of projectname]
    have skip: "reclaim env servicenames unknown = ret ()"
      using assms by (simp add: reclaim_def)
    show ?thesis
    proof (cases "fst (?f (world s) ?c)")
      case (Inl x)
      from do_call_Inl [of ?f s ?c x, OF Inl]
      have "?up = (Inl x, ?s1)"
        unfolding up by (simp add: bnd_eval)
      then show ?thesis by (simp add: new_calls_def)
    next
      case (Inr r)
      from do_call_Inr [of ?f s ?c r, OF Inr]
      have "?up = ps env project projectname servicenames ?s1"
        unfolding up skip by (simp add: bnd_eval ret_eval)
      with quietD [OF quiet_ps, of env project projectname servicenames ?s1]
      show ?thesis by (simp add: new_calls_def)
    qed
  qed
  then show ?thesis by auto
qed


text \<open>
  An instance: \<^verbatim>\<open>up web app\<close> on the sample host leaves both orphans in place.
\<close>

theorem up_scoped_leaves_orphans_witness:
  "new_calls demo_state (snd (up demo_env ''web'' ''web'' [''app''] demo_state))
     = [ProjectUp [''app''] True]
   \<and> world (snd (up demo_env ''web'' ''web'' [''app''] demo_state)) = [app1, old1, old2, db1]
   \<and> list_all (\<lambda>c. \<not> is_container_call c)
        (new_calls demo_state (snd (up demo_env ''web'' ''web'' [''app''] demo_state)))"
proof -
  have "[''app''] \<noteq> ([] :: string list)" by simp
  from up_scoped_leaves_orphans [OF this, of demo_state demo_env "''web''" "''web''"]
  have "list_all (\<lambda>c. \<not> is_container_call c)
        (new_calls demo_state (snd (up demo_env ''web'' ''web'' [''app''] demo_state)))"
    by (rule conjunct2)
  with demo_up_scoped_calls demo_up_scoped_world show ?thesis
    by (intro conjI)
qed

subsection \<open>C5: how the project argument names the configuration file\<close>




subsection \<open>C6: the order of the plans\<close>



subsection \<open>C7: what \<^verbatim>\<open>main\<close> catches\<close>

text \<open>
  C7 (as amended). \<^verbatim>\<open>main\<close> catches exactly six classes: \<open>KeyboardInterrupt\<close>,
  \<open>NoSuchService\<close>, \<open>ConfigurationError\<close>, \<open>LegacyContainersError\<close>, \<open>APIError\<close> and
  \<open>BuildError\<close>. For each it prints one message (the abort notice, the error's own message,
  the engine's explanation, or the build failure with service and reason) and exits with
  status 1. Every other exception leaves \<^verbatim>\<open>main\<close> as it was raised, and a normal return
  stays a normal return.
\<close>

theorem main_top_level_handlers:
  "main usage s =
     (case usage s of
        (Inr u, s') \<Rightarrow> (Inr u, s')
      | (Inl e, s') \<Rightarrow>
          (case top_level_message e of
             Some m \<Rightarrow> (Inl (SystemExit (Code 1)), s'\<lparr>out := out s' @ [m]\<rparr>)
           | None \<Rightarrow> (Inl e, s')))"
proof (cases "usage s")
  case (Pair r s')
  show ?thesis
  proof (cases r)
    case (Inl e)
    with Pair main_raise [of usage s e s'] show ?thesis by simp
  next
    case (Inr u)
    with Pair show ?thesis by (simp add: main_def)
  qed
qed

text \<open>An engine error is reported by its explanation; a \<open>KeyError\<close> is not caught.\<close>

theorem main_top_level_handlers_witness:
  "main (raise (APIError ''conflict'')) demo_state
     = (Inl (SystemExit (Code 1)), demo_state\<lparr>out := [''conflict'']\<rparr>)
   \<and> main (raise (KeyError ''a1'')) demo_state = (Inl (KeyError ''a1''), demo_state)"
  using main_top_level_handlers [of "raise (APIError ''conflict'')" demo_state]
    main_top_level_handlers [of "raise (KeyError ''a1'')" demo_state]
  by (simp add: raise_def top_level_message_def claimed_top_level_message_def demo_state_def)

text \<open>
  The claim as first stated lists five classes and says no other is caught; a
  \<open>LegacyContainersError\<close> is none of the five, and \<^verbatim>\<open>main\<close> catches it.
\<close>

theorem legacy_error_counterexample:
  "claimed_top_level_message (LegacyContainersError ''legacy containers'') = None
   \<and> main (raise (LegacyContainersError ''legacy containers'')) demo_state
       = (Inl (SystemExit (Code 1)), demo_state\<lparr>out := [''legacy containers'']\<rparr>)"
  by (simp add: claimed_top_level_message_def main_def raise_def bnd_def print_def demo_state_def)

subsection \<open>C8: the status view\<close>

text \<open>
  C8. \<^verbatim>\<open>ps PROJECT\<close> changes neither the world nor the calls: it only queries and prints.
  When its queries succeed it prints the header, then for each service in turn either one
  line with the service name, the state \<^verbatim>\<open>Uncreated\<close> and an empty address (when the
  service has no container) or one line per container, then an empty line. A container
  whose address is the empty string is shown with the address \<^verbatim>\<open>(host)\<close>, in \<^verbatim>\<open>ps\<close> and in
  the untracked section of bare \<^verbatim>\<open>ps\<close> alike.
\<close>

theorem ps_status_view:
  "world (snd (ps env project projectname servicenames s)) = world s
 \<and> calls (snd (ps env project projectname servicenames s)) = calls s
 \<and> (get_services env (world s) project servicenames False = Inr services
      \<and> (\<forall>sv \<in> set services.
             service_containers env (world s) project sv True False = Inr (l1 sv)
           \<and> service_containers env (world s) project sv False True = Inr (l2 sv))
    \<longrightarrow> ps env project projectname servicenames s
          = (Inr (), s\<lparr>out := out s @ [[], ''  '' @ projectname @ '' services:'', []]
                @ concat (map (\<lambda>sv. service_status_lines sv (l1 sv @ l2 sv)) services) @ [[]]\<rparr>))
 \<and> service_status_lines service []
      = [''  '' @ ljust 24 service @ ''Uncreated   '' @ replicate 17 (CHR '' '')]
 \<and> (cs \<noteq> [] \<longrightarrow> service_status_lines service cs = map container_status_line cs)
 \<and> (ip_address c = [] \<longrightarrow>
       container_status_line c
         = ''  '' @ ljust 24 (name_without_project c) @ ljust 12 (human_readable_state c)
             @ ''(host)           '')
 \<and> (detail_ip det = [] \<longrightarrow>
       untracked_line det
         = ''  '' @ ljust 24 (if startswith (detail_name det) ''/'' then drop 1 (detail_name det)
                              else detail_name det)
             @ replicate 12 (CHR '' '') @ ''(host)           '')"
proof (intro conjI impI)
  show "world (snd (ps env project projectname servicenames s)) = world s"
    and "calls (snd (ps env project projectname servicenames s)) = calls s"
    using quietD [OF quiet_ps, of env project projectname servicenames s] by simp_all
next
  assume a: "get_services env (world s) project servicenames False = Inr services
      \<and> (\<forall>sv \<in> set services.
             service_containers env (world s) project sv True False = Inr (l1 sv)
           \<and> service_containers env (world s) project sv False True = Inr (l2 sv))"
  let ?s1 = "s\<lparr>out := out s @ [[], ''  '' @ projectname @ '' services:'', []]\<rparr>"
  from a have "\<forall>sv \<in> set services.
             service_containers env (world ?s1) project sv True False = Inr (l1 sv)
           \<and> service_containers env (world ?s1) project sv False True = Inr (l2 sv)"
    by simp
  from for_each_ps_service [OF this] a
  show "ps env project projectname servicenames s
          = (Inr (), s\<lparr>out := out s @ [[], ''  '' @ projectname @ '' services:'', []]
                @ concat (map (\<lambda>sv. service_status_lines sv (l1 sv @ l2 sv)) services) @ [[]]\<rparr>)"
    by (simp add: ps_def bnd_eval print_eval query_eval)
next
  show "service_status_lines service []
      = [''  '' @ ljust 24 service @ ''Uncreated   '' @ replicate 17 (CHR '' '')]"
    by (simp add: service_status_lines_def status_line_def ljust_def eval_nat_numeral)
next
  assume "cs \<noteq> []"
  then show "service_status_lines service cs = map container_status_line cs"
    by (simp add: service_status_lines_def)
next
  assume "ip_address c = []"
  then show "container_status_line c
         = ''  '' @ ljust 24 (name_without_project c) @ ljust 12 (human_readable_state c)
             @ ''(host)           ''"
    by (simp add: container_status_line_def status_line_def ljust_def eval_nat_numeral)
next
  assume "detail_ip det = []"
  then show "untracked_line det
         = ''  '' @ ljust 24 (if startswith (detail_name det) ''/'' then drop 1 (detail_name det)
                              else detail_name det)
             @ replicate 12 (CHR '' '') @ ''(host)           ''"
    by (simp add: untracked_line_def status_line_def ljust_def Let_def eval_nat_numeral)
qed


text \<open>
  An instance: in the sample project \<^verbatim>\<open>app\<close> has one container and \<^verbatim>\<open>db\<close> has none; the
  left-over container \<^verbatim>\<open>old_1\<close> has no bridge address.
\<close>

theorem ps_status_view_witness:
  "ps demo_env ''web'' ''web'' [] demo_state
     = (Inr (), demo_state\<lparr>out := out demo_state @ [[], ''  web services:'', []]
          @ [''  app_1                   Up          172.17.0.2       '',
             ''  db                      Uncreated                    ''] @ [[]]\<rparr>)
   \<and> container_status_line old1 = ''  old_1                   Up          (host)           ''"
proof -
  note t = ps_status_view [of demo_env "''web''" "''web''" "[]" demo_state "[''app'', ''db'']"
      "\<lambda>sv. of_service sv [app1, old1, old2]" "\<lambda>sv. []" "''db''" "[old1]" old1
      "\<lparr>detail_name = ''/web_old_1'', detail_ip = []\<rparr>"]
  have ip: "ip_address old1 = []" by (simp add: old1_def)
  from t [THEN conjunct2, THEN conjunct2, THEN conjunct1, rule_format, OF demo_ps_queries]
  have a: "ps demo_env ''web'' ''web'' [] demo_state
     = (Inr (), demo_state\<lparr>out := out demo_state @ [[], ''  web services:'', []]
          @ concat (map (\<lambda>sv. service_status_lines sv (of_service sv [app1, old1, old2] @ []))
             [''app'', ''db'']) @ [[]]\<rparr>)"
    by simp
  note b = t [THEN conjunct2, THEN conjunct2, THEN conjunct2, THEN conjunct2, THEN conjunct2,
      THEN conjunct1, rule_format, OF ip]
  from a b show ?thesis
    unfolding demo_status_lines demo_host_line by simp
qed

subsection \<open>C9: \<^verbatim>\<open>exec\<close> targets the first replica\<close>

text \<open>
  C9. \<^verbatim>\<open>exec PROJECT SERVICE [COMMANDS...]\<close> makes exactly one call, \<^verbatim>\<open>docker exec -it\<close> on
  the container named \<^verbatim>\<open>{project}_{service}_1\<close>, followed by the given commands, or by
  \<^verbatim>\<open>/bin/bash\<close> when none is given (\<^verbatim>\<open>None\<close> or an empty list). The process then exits
  with the return code of that call.
\<close>

theorem exec_first_replica:
  assumes "\<not> opt_ps options" and "opt_exec options"
  shows "\<exists>command.
           new_calls s (snd (Usage env (Inr options) s))
             = [SubprocessCall ([''docker'', ''exec'', ''-it'',
                  opt_PROJECT options @ ''_'' @ opt_SERVICE options @ ''_1''] @ command)]
         \<and> (opt_COMMANDS options = None \<or> opt_COMMANDS options = Some [] \<longrightarrow>
               command = [''/bin/bash''])
         \<and> (\<forall>cs. opt_COMMANDS options = Some cs \<and> cs \<noteq> [] \<longrightarrow> command = cs)
         \<and> fst (Usage env (Inr options) s)
             = (case fst (engine_call env (world s) (SubprocessCall ([''docker'', ''exec'', ''-it'',
                  opt_PROJECT options @ ''_'' @ opt_SERVICE options @ ''_1''] @ command))) of
                  Inl e \<Rightarrow> Inl e
                | Inr rc \<Rightarrow> Inl (SystemExit (Code rc)))"
proof -
  let ?command = "case opt_COMMANDS options of
                    None \<Rightarrow> [''/bin/bash'']
                  | Some cs \<Rightarrow> if cs = [] then [''/bin/bash''] else cs"
  have U: "Usage env (Inr options) s
             = exec env (opt_PROJECT options) (opt_SERVICE options) (opt_COMMANDS options) s"
    using assms by (simp add: Usage_def)
  show ?thesis
    apply (rule exI [of _ ?command])
    unfolding U
    by (auto simp: exec_def Let_def bnd_def print_def do_call_def raise_def new_calls_def
          split: prod.splits sum.splits option.splits)
qed

text \<open>An instance: \<^verbatim>\<open>tug2 exec web app\<close>.\<close>

theorem exec_first_replica_witness:
  "new_calls demo_state
     (snd (Usage demo_env
        (Inr \<lparr>opt_ps = False, opt_exec = True, opt_COMMAND = [], opt_PROJECT = ''web'',
              opt_SERVICE = ''app'', opt_SERVICES = [], opt_COMMANDS = Some []\<rparr>) demo_state))
     = [SubprocessCall [''docker'', ''exec'', ''-it'', ''web_app_1'', ''/bin/bash'']]"
  using exec_first_replica
    [of "\<lparr>opt_ps = False, opt_exec = True, opt_COMMAND = [], opt_PROJECT = ''web'',
          opt_SERVICE = ''app'', opt_SERVICES = [], opt_COMMANDS = Some []\<rparr>" demo_state demo_env]
  by auto

subsection \<open>C10: the unguarded deletions\<close>

text \<open>
  C10. Once the inventory and the plans have been obtained, \<^verbatim>\<open>up\<close> and \<^verbatim>\<open>diff\<close> get past
  their deletions exactly when the container ids of the plans are pairwise distinct and
  all in the inventory (then \<^verbatim>\<open>diff\<close> returns normally); otherwise both end with the same
  \<open>KeyError\<close>, which \<^verbatim>\<open>main\<close> does not catch. Likewise bare \<^verbatim>\<open>ps\<close>, once the host's
  containers are inspected and every project of the directory is loaded and queried,
  returns normally exactly when the ids of the containers of all services of all projects
  are pairwise distinct and all among the host's containers, and otherwise ends with an
  uncaught \<open>KeyError\<close>.
\<close>

theorem unguarded_deletion_KeyError:
  "(project_containers env (world s) project None True False = Inr c1
    \<and> project_containers env (world s) project None False True = Inr c2
    \<and> get_services env (world s) project servicenames True = Inr services
    \<and> get_convergence_plans env (world s) project services = Inr plans
    \<longrightarrow> (if distinct (plan_container_ids plans)
              \<and> set (plan_container_ids plans) \<subseteq> cid ` set (c1 @ c2)
         then (\<exists>unknown. fst (up_unknown env project servicenames s) = Inr unknown)
            \<and> fst (main (diff env project projectname servicenames) s) = Inr ()
         else (\<exists>k. fst (main (up env project projectname servicenames) s) = Inl (KeyError k)
                \<and> fst (main (diff env project projectname servicenames) s) = Inl (KeyError k))))
 \<and> (client_containers env (world s) = Inr ids
    \<and> (\<forall>i \<in> set ids. inspect_container env (world s) i = Inr (det i))
    \<and> (\<forall>pn \<in> set (projectnames_in_dir (listdir env (world s))).
             config_load env (world s) (abspath env (pn @ ''.yml'')) = Inr (cfg pn)
           \<and> from_dicts env pn (cfg pn) = Inr (proj pn)
           \<and> get_services env (world s) (proj pn) [] False = Inr (svcs pn)
           \<and> (\<forall>sv \<in> set (svcs pn).
                 service_containers env (world s) (proj pn) sv True False = Inr (l1 pn sv)
               \<and> service_containers env (world s) (proj pn) sv False True = Inr (l2 pn sv)))
    \<longrightarrow> (if distinct (owned_ids svcs (\<lambda>pn sv. l1 pn sv @ l2 pn sv)
                          (projectnames_in_dir (listdir env (world s))))
              \<and> set (owned_ids svcs (\<lambda>pn sv. l1 pn sv @ l2 pn sv)
                          (projectnames_in_dir (listdir env (world s)))) \<subseteq> set ids
         then fst (main (ps_all env) s) = Inr ()
         else (\<exists>k. fst (main (ps_all env) s) = Inl (KeyError k))))"
proof (intro conjI impI)
  assume q: "project_containers env (world s) project None True False = Inr c1
    \<and> project_containers env (world s) project None False True = Inr c2
    \<and> get_services env (world s) project servicenames True = Inr services
    \<and> get_convergence_plans env (world s) project services = Inr plans"
  then have q4: "project_containers env (world s) project None True False = Inr c1"
    "project_containers env (world s) project None False True = Inr c2"
    "get_services env (world s) project servicenames True = Inr services"
    "get_convergence_plans env (world s) project services = Inr plans"
    by simp_all
  let ?ids = "plan_container_ids plans"
  let ?d = "build_unknown (c1 @ c2)"
  have up: "fst (up_unknown env project servicenames s) = del_keys ?ids ?d"
    by (simp add: up_unknown_eval [OF q4] del_plans_keys)
  have df: "fst (diff env project projectname servicenames s)
              = map_sum id (\<lambda>d. ()) (del_keys ?ids ?d)"
    by (simp add: diff_result diff_unknown_eval [OF q4] diff_plans_result del_plans_keys)
  show "if distinct ?ids \<and> set ?ids \<subseteq> cid ` set (c1 @ c2)
         then (\<exists>unknown. fst (up_unknown env project servicenames s) = Inr unknown)
            \<and> fst (main (diff env project projectname servicenames) s) = Inr ()
         else (\<exists>k. fst (main (up env project projectname servicenames) s) = Inl (KeyError k)
                \<and> fst (main (diff env project projectname servicenames) s) = Inl (KeyError k))"
  proof (cases "distinct ?ids \<and> set ?ids \<subseteq> cid ` set (c1 @ c2)")
    case True
    then have "del_keys ?ids ?d = Inr (filter (\<lambda>kv. fst kv \<notin> set ?ids) ?d)"
      by (simp add: del_keys_Inr_iff build_unknown_keys)
    with up df have "\<exists>unknown. fst (up_unknown env project servicenames s) = Inr unknown"
      and "fst (diff env project projectname servicenames s) = Inr ()"
      by simp_all
    with True show ?thesis by (simp add: main_Inr)
  next
    case False
    then have "\<not> (distinct ?ids \<and> set ?ids \<subseteq> fst ` set ?d)"
      by (simp add: build_unknown_keys)
    then obtain k where k: "del_keys ?ids ?d = Inl (KeyError k)"
      using del_keys_KeyError_iff [of ?ids ?d] by blast
    from k up have "fst (up env project projectname servicenames s) = Inl (KeyError k)"
      by (simp add: up_KeyError)
    moreover from k df have "fst (diff env project projectname servicenames s) = Inl (KeyError k)"
      by simp
    ultimately have "fst (main (up env project projectname servicenames) s) = Inl (KeyError k)
                \<and> fst (main (diff env project projectname servicenames) s) = Inl (KeyError k)"
      by (simp add: main_KeyError)
    then have "\<exists>k. fst (main (up env project projectname servicenames) s) = Inl (KeyError k)
                \<and> fst (main (diff env project projectname servicenames) s) = Inl (KeyError k)"
      by (rule exI)
    with False show ?thesis by (simp only: if_False simp_thms)
  qed
next
  let ?owned = "owned_ids svcs (\<lambda>pn sv. l1 pn sv @ l2 pn sv)
                  (projectnames_in_dir (listdir env (world s)))"
  assume a: "client_containers env (world s) = Inr ids
    \<and> (\<forall>i \<in> set ids. inspect_container env (world s) i = Inr (det i))
    \<and> (\<forall>pn \<in> set (projectnames_in_dir (listdir env (world s))).
             config_load env (world s) (abspath env (pn @ ''.yml'')) = Inr (cfg pn)
           \<and> from_dicts env pn (cfg pn) = Inr (proj pn)
           \<and> get_services env (world s) (proj pn) [] False = Inr (svcs pn)
           \<and> (\<forall>sv \<in> set (svcs pn).
                 service_containers env (world s) (proj pn) sv True False = Inr (l1 pn sv)
               \<and> service_containers env (world s) (proj pn) sv False True = Inr (l2 pn sv)))"
  note cc = a [THEN conjunct1]
  note ins = a [THEN conjunct2, THEN conjunct1]
  note prj = a [THEN conjunct2, THEN conjunct2]
  from ps_all_result [OF cc ins prj] obtain d0 :: "(string \<times> detail) list" where
    k0: "fst ` set d0 = set ids"
    and r: "fst (ps_all env s) = map_sum id (\<lambda>d. ()) (del_keys ?owned d0)"
    by blast
  show "if distinct ?owned \<and> set ?owned \<subseteq> set ids
         then fst (main (ps_all env) s) = Inr ()
         else (\<exists>k. fst (main (ps_all env) s) = Inl (KeyError k))"
  proof (cases "distinct ?owned \<and> set ?owned \<subseteq> set ids")
    case True
    then have "del_keys ?owned d0 = Inr (filter (\<lambda>kv. fst kv \<notin> set ?owned) d0)"
      by (simp add: del_keys_Inr_iff k0)
    with r have "fst (ps_all env s) = Inr ()" by simp
    with True show ?thesis by (simp add: main_Inr)
  next
    case False
    then have "\<not> (distinct ?owned \<and> set ?owned \<subseteq> fst ` set d0)"
      by (simp add: k0)
    then obtain k where "del_keys ?owned d0 = Inl (KeyError k)"
      using del_keys_KeyError_iff [of ?owned d0] by blast
    with r have "fst (ps_all env s) = Inl (KeyError k)" by simp
    then have "fst (main (ps_all env) s) = Inl (KeyError k)" by (rule main_KeyError)
    then have "\<exists>k. fst (main (ps_all env) s) = Inl (KeyError k)" by (rule exI)
    with False show ?thesis by (simp only: if_False simp_thms)
  qed
qed


text \<open>
  An instance: compose lists \<^verbatim>\<open>web_app_1\<close> under both services; \<^verbatim>\<open>up\<close>, \<^verbatim>\<open>diff\<close> and bare
  \<^verbatim>\<open>ps\<close> all end with a \<open>KeyError\<close> that leaves \<^verbatim>\<open>main\<close>.
\<close>

theorem unguarded_deletion_KeyError_witness:
  "(\<exists>k. fst (main (up dup_env ''web'' ''web'' []) demo_state) = Inl (KeyError k)
        \<and> fst (main (diff dup_env ''web'' ''web'' []) demo_state) = Inl (KeyError k))
   \<and> (\<exists>k. fst (main (ps_all dup_env) demo_state) = Inl (KeyError k))"
proof -
  have ids: "plan_container_ids [(''app'', \<lparr>plan_action = ''noop'', plan_containers = [app1]\<rparr>),
               (''db'', \<lparr>plan_action = ''noop'', plan_containers = [app1]\<rparr>)] = [''a1'', ''a1'']"
    by (simp add: plan_container_ids_def app1_def)
  have owned: "owned_ids (\<lambda>pn. [''app'', ''db'']) (\<lambda>pn sv. [app1] @ []) [''web''] = [''a1'', ''a1'']"
    by (simp add: owned_ids_def app1_def)
  note t = unguarded_deletion_KeyError
    [of dup_env demo_state "''web''" "[app1, old1, old2]" "[]" "[]" "[''app'', ''db'']"
      "[(''app'', \<lparr>plan_action = ''noop'', plan_containers = [app1]\<rparr>),
        (''db'', \<lparr>plan_action = ''noop'', plan_containers = [app1]\<rparr>)]"
      "''web''" "[''a1'', ''o1'', ''o2'']"
      "\<lambda>i. if i = ''a1'' then \<lparr>detail_name = ''/web_app_1'', detail_ip = ''172.17.0.2''\<rparr>
           else if i = ''o1'' then \<lparr>detail_name = ''/web_old_1'', detail_ip = []\<rparr>
           else \<lparr>detail_name = ''/web_old_2'', detail_ip = []\<rparr>"
      "\<lambda>pn. ()" "\<lambda>pn. pn" "\<lambda>pn. [''app'', ''db'']" "\<lambda>pn sv. [app1]" "\<lambda>pn sv. []"]
  from t [THEN conjunct1, rule_format, OF dup_queries]
  have a: "\<exists>k. fst (main (up dup_env ''web'' ''web'' []) demo_state) = Inl (KeyError k)
        \<and> fst (main (diff dup_env ''web'' ''web'' []) demo_state) = Inl (KeyError k)"
    unfolding ids by simp
  from t [THEN conjunct2, rule_format, OF dup_ps_queries]
  have b: "\<exists>k. fst (main (ps_all dup_env) demo_state) = Inl (KeyError k)"
    unfolding demo_projectnames owned by simp
  from a b show ?thesis by (rule conjI)
qed

end
